theory Spec2Isabelle
  imports Main
begin

unbundle bit_operations_syntax

section \<open>Domain types shared by both engines\<close>

text \<open>
  The repository holds two engines of the same package name: the monolithic
  \<^verbatim>\<open>Elevator\<close> (one struct owning all state and the scheduler) and the
  logic-split pair \<^verbatim>\<open>ElevatorLogic\<close> (domain.go) with its service
  \<^verbatim>\<open>Elevator\<close> (pkg/elevator/elevator.go). Both declare the same value types,
  embedded once here. Constants of the split engine carry the suffix \<open>_L\<close> (methods of
  \<^verbatim>\<open>ElevatorLogic\<close>) or \<open>_S\<close> (methods of the service).
\<close>

datatype Direction = DirUp | DirDown | DirNone

datatype DoorState = DoorOpen | DoorOpening | DoorClosing | DoorClose

text \<open>
  \<^verbatim>\<open>DoorSide\<close> is an integer bit mask (Front = 1, Rear = 2, Both = 3). The
  \<^verbatim>\<open>doors\<close> map is created with exactly the keys Front and Rear and every
  access of the engines uses one of these two keys, so the keys are a two-element
  datatype and \<open>sideMask\<close> gives the bit of a key.
\<close>

datatype Door = Front | Rear

type_synonym DoorSide = int

fun sideMask :: "Door \<Rightarrow> DoorSide" where
  "sideMask Front = 1"
| "sideMask Rear = 2"

text \<open>\<^verbatim>\<open>OperationMode\<close> is an int; the transport casts any client integer to it.\<close>

type_synonym OperationMode = int

definition ModeAuto :: OperationMode where [simp]: "ModeAuto = 0"
definition ModeManual :: OperationMode where [simp]: "ModeManual = 1"
definition ModeMoving :: OperationMode where [simp]: "ModeMoving = 2"
definition ModeEmergency :: OperationMode where [simp]: "ModeEmergency = 3"

record FloorConfig =
  FloorNumber :: int
  IsAccessible :: bool
  OpenDoorSide :: DoorSide

text \<open>
  \<^verbatim>\<open>FloorConfigs\<close> is a Go map that may be nil: \<open>None\<close> is the nil map.
  Reading a nil map or a missing key gives \<open>ok = false\<close> and the zero value.
\<close>

type_synonym FloorConfigs = "(int \<rightharpoonup> FloorConfig) option"

definition zeroFloorConfig :: FloorConfig where
  "zeroFloorConfig = \<lparr>FloorNumber = 0, IsAccessible = False, OpenDoorSide = 0\<rparr>"

definition fcLookup :: "FloorConfigs \<Rightarrow> int \<Rightarrow> FloorConfig option" where
  "fcLookup fcs f = (case fcs of None \<Rightarrow> None | Some m \<Rightarrow> m f)"

definition fcIndex :: "FloorConfigs \<Rightarrow> int \<Rightarrow> FloorConfig" where
  "fcIndex fcs f = (case fcLookup fcs f of None \<Rightarrow> zeroFloorConfig | Some c \<Rightarrow> c)"

text \<open>Durations are \<^verbatim>\<open>time.Duration\<close>, an integer count of nanoseconds.\<close>

record Config =
  TravelTime :: int
  TravelTimeEdge :: int
  DoorSpeed :: int
  DoorOpenTime :: int
  DoorReopenTime :: int
  InitialFloor :: int
  MinFloor :: int
  MaxFloor :: int
  MaxWeight :: int
  FloorConfigs :: FloorConfigs

datatype Event =
    FloorChange int
  | DirectionChange Direction
  | DoorChange Door DoorState
  | ModeChange OperationMode
  | Arrived int DoorSide

datatype Error =
    InvalidConfig int int
  | FloorOutOfRange int
  | FloorInaccessible int

subsection \<open>Machine arithmetic\<close>

text \<open>
  The code assigns \<^verbatim>\<open>math.MaxInt64\<close> to an \<^verbatim>\<open>int\<close>, so \<^verbatim>\<open>int\<close> is 64 bits
  wide; its arithmetic wraps. Values are kept as \<open>int\<close> and every addition and
  subtraction of the code is wrapped by \<open>wrap64\<close>.
\<close>

definition wrap64 :: "int \<Rightarrow> int" where
  "wrap64 x = (x + 2 ^ 63) mod 2 ^ 64 - 2 ^ 63"

definition MaxInt64 :: int where
  "MaxInt64 = 2 ^ 63 - 1"

text \<open>
  \<^verbatim>\<open>int(math.Abs(float64(d)))\<close>. Every integer of magnitude at most \<open>2 ^ 53\<close> is
  a float64, so the conversion is exact there and the result is \<open>\<bar>d\<bar>\<close>. The
  embedding gives \<open>\<bar>d\<bar>\<close> throughout; float rounding of larger magnitudes is not
  modelled, and the theorems that depend on this function bound the floors.
\<close>

definition absFloat64 :: "int \<Rightarrow> int" where
  "absFloat64 d = \<bar>d\<bar>"

subsection \<open>Ranging over the call map\<close>

text \<open>
  The three scheduler loops have one shape: range over the keys of the call map, skip
  the keys the phase excludes, and keep the first key whose distance is strictly
  below the running minimum. The order in which Go ranges over a map is not specified
  and differs from one loop to the next, so the order \<open>ks\<close> of the keys is an
  argument of every function that ranges. A call of a scheduler takes one order for
  both of its loops: the result of Phase 1 does not depend on it (\<open>phase1_order\<close>),
  so an order of its own for Phase 2 would add no behaviour. The accumulator is
  \<^verbatim>\<open>(minDist, target, found)\<close>.
\<close>

type_synonym scan = "int \<times> int \<times> bool"

fun rangeScan :: "(int \<Rightarrow> bool) \<Rightarrow> (int \<Rightarrow> int) \<Rightarrow> int list \<Rightarrow> scan \<Rightarrow> scan" where
  "rangeScan ok dist [] acc = acc"
| "rangeScan ok dist (f # fs) (minDist, target, found) =
     (if ok f \<and> dist f < minDist
      then rangeScan ok dist fs (dist f, f, True)
      else rangeScan ok dist fs (minDist, target, found))"

definition scanInit :: scan where
  "scanInit = (MaxInt64, - 1, False)"

text \<open>\<open>ks\<close> is an order in which a range over the call set \<open>cs\<close> can visit it.\<close>

definition rangeOrder :: "int list \<Rightarrow> int set \<Rightarrow> bool" where
  "rangeOrder ks cs = (distinct ks \<and> set ks = cs)"

subsection \<open>Filling the missing floor configurations\<close>

text \<open>
  \<^verbatim>\<open>for i := MinFloor; i <= MaxFloor; i++\<close>, filling every missing entry with the
  default. The counter wraps, so the loop does not end when \<^verbatim>\<open>MaxFloor\<close> is the
  largest int: not returning is the value \<open>None\<close>.
\<close>

definition defaultFloorConfig :: "int \<Rightarrow> FloorConfig" where
  "defaultFloorConfig i = \<lparr>FloorNumber = i, IsAccessible = True, OpenDoorSide = sideMask Front\<rparr>"

partial_function (option) fillFloorConfigs ::
    "int \<Rightarrow> int \<Rightarrow> (int \<rightharpoonup> FloorConfig) \<Rightarrow> (int \<rightharpoonup> FloorConfig) option" where
  "fillFloorConfigs i mx m =
     (if i \<le> mx
      then fillFloorConfigs (wrap64 (i + 1)) mx
             (if m i = None then m(i \<mapsto> defaultFloorConfig i) else m)
      else Some m)"

section \<open>The monolithic engine\<close>

record Elevator =
  Config :: Config
  Mode :: OperationMode
  floor' :: int
  direction :: Direction
  doors :: "Door \<Rightarrow> DoorState"
  weight :: int
  openWaitTime :: int
  callFloors :: "int set"
  doorTimer :: "int option"
  eventCh :: "Event list"
  droppedEventCount :: nat
  isOpenButtonPressed :: bool

text \<open>
  \<^verbatim>\<open>New\<close>: \<open>None\<close> when the call does not return, otherwise the error or the
  engine. The timers are \<open>None\<close> when stopped and \<open>Some d\<close> when armed for \<open>d\<close>.
\<close>

definition New :: "Config \<Rightarrow> (Error + Elevator) option" where
  "New config =
     (if MinFloor config > MaxFloor config
      then Some (Inl (InvalidConfig (MinFloor config) (MaxFloor config)))
      else
        (case fillFloorConfigs (MinFloor config) (MaxFloor config)
                (case FloorConfigs config of None \<Rightarrow> Map.empty | Some m \<Rightarrow> m) of
           None \<Rightarrow> None
         | Some m \<Rightarrow>
             let config = config\<lparr>FloorConfigs := Some m\<rparr>;
                 config = (if DoorReopenTime config = 0
                           then config\<lparr>DoorReopenTime := DoorOpenTime config\<rparr>
                           else config)
             in Some (Inr \<lparr>Config = config,
                           Mode = ModeAuto,
                           floor' = InitialFloor config,
                           direction = DirNone,
                           doors = (\<lambda>_. DoorClose),
                           weight = 0,
                           openWaitTime = DoorOpenTime config,
                           callFloors = {},
                           doorTimer = None,
                           eventCh = [],
                           droppedEventCount = 0,
                           isOpenButtonPressed = False\<rparr>)))"

text \<open>
  \<^verbatim>\<open>publishEvent\<close>: a non-blocking send on a channel of capacity 1000; a full channel
  drops the event and counts it in a uint64.
\<close>

definition publishEvent :: "Elevator \<Rightarrow> Event \<Rightarrow> Elevator" where
  "publishEvent e ev =
     (if length (eventCh e) < 1000
      then e\<lparr>eventCh := eventCh e @ [ev]\<rparr>
      else e\<lparr>droppedEventCount := (droppedEventCount e + 1) mod 2 ^ 64\<rparr>)"

definition setFloor :: "Elevator \<Rightarrow> int \<Rightarrow> Elevator" where
  "setFloor e f =
     (if floor' e \<noteq> f then publishEvent (e\<lparr>floor' := f\<rparr>) (FloorChange f) else e)"

definition setDirection :: "Elevator \<Rightarrow> Direction \<Rightarrow> Elevator" where
  "setDirection e d =
     (if direction e \<noteq> d then publishEvent (e\<lparr>direction := d\<rparr>) (DirectionChange d) else e)"

definition setDoor :: "Elevator \<Rightarrow> Door \<Rightarrow> DoorState \<Rightarrow> Elevator" where
  "setDoor e side state =
     (if doors e side \<noteq> state
      then publishEvent (e\<lparr>doors := (doors e)(side := state)\<rparr>) (DoorChange side state)
      else e)"

definition Reset :: "Elevator \<Rightarrow> Elevator" where
  "Reset e =
     (let e = e\<lparr>callFloors := {}\<rparr>;
          e = setDirection e DirNone;
          e = setDoor e Front DoorClose
      in setDoor e Rear DoorClose)"

definition SetMode :: "Elevator \<Rightarrow> OperationMode \<Rightarrow> Elevator" where
  "SetMode e mode =
     (if Mode e = mode then e
      else
        let e = publishEvent (e\<lparr>Mode := mode\<rparr>) (ModeChange mode)
        in if mode = ModeEmergency
           then e\<lparr>doorTimer := None, direction := DirNone\<rparr>
           else e)"

text \<open>
  \<^verbatim>\<open>AddCall\<close> returns the error (or nil) beside the engine as the call leaves it;
  \<^verbatim>\<open>isCarCall\<close> only selects a log message.
\<close>

definition AddCall :: "Elevator \<Rightarrow> int \<Rightarrow> bool \<Rightarrow> Error option \<times> Elevator" where
  "AddCall e f isCarCall =
     (if f < MinFloor (Config e) \<or> f > MaxFloor (Config e)
      then (Some (FloorOutOfRange f), e)
      else
        let cfg = fcIndex (FloorConfigs (Config e)) f
        in if \<not> IsAccessible cfg then (Some (FloorInaccessible f), e)
           else if f \<in> callFloors e then (None, e)
           else (None, e\<lparr>callFloors := insert f (callFloors e)\<rparr>))"

definition RemoveCall :: "Elevator \<Rightarrow> int \<Rightarrow> Elevator" where
  "RemoveCall e f = e\<lparr>callFloors := callFloors e - {f}\<rparr>"

definition ClearCalls :: "Elevator \<Rightarrow> Elevator" where
  "ClearCalls e = e\<lparr>callFloors := {}\<rparr>"

definition AddWeight :: "Elevator \<Rightarrow> int \<Rightarrow> Elevator" where
  "AddWeight e w = e\<lparr>weight := wrap64 (weight e + w)\<rparr>"

definition SetDoor :: "Elevator \<Rightarrow> Door \<Rightarrow> DoorState \<Rightarrow> Elevator" where
  "SetDoor e side state = setDoor e side state"

subsection \<open>Scheduler\<close>

text \<open>Phase 1: the calls strictly ahead in the current heading.\<close>

definition phase1 :: "int list \<Rightarrow> Elevator \<Rightarrow> scan" where
  "phase1 ks e =
     (case direction e of
        DirUp \<Rightarrow> rangeScan (\<lambda>f. f > floor' e) (\<lambda>f. wrap64 (f - floor' e)) ks scanInit
      | DirDown \<Rightarrow> rangeScan (\<lambda>f. f < floor' e) (\<lambda>f. wrap64 (floor' e - f)) ks scanInit
      | DirNone \<Rightarrow> scanInit)"

text \<open>Phase 2: the nearest call.\<close>

definition phase2 :: "int list \<Rightarrow> Elevator \<Rightarrow> scan" where
  "phase2 ks e =
     rangeScan (\<lambda>f. True) (\<lambda>f. absFloat64 (wrap64 (f - floor' e))) ks scanInit"

definition selectNextTarget :: "int list \<Rightarrow> Elevator \<Rightarrow> int \<times> bool" where
  "selectNextTarget ks e =
     (if callFloors e = {} then (0, False)
      else
        (case phase1 ks e of
           (minDist, target, found) \<Rightarrow>
             if found then (target, True)
             else
               (case phase2 ks e of
                  (minDist, target, found) \<Rightarrow>
                    if found then (target, True) else (0, False))))"

definition getFloorConfig :: "Elevator \<Rightarrow> int \<Rightarrow> FloorConfig \<times> bool" where
  "getFloorConfig e f =
     (case fcLookup (FloorConfigs (Config e)) f of
        None \<Rightarrow> (zeroFloorConfig, False)
      | Some c \<Rightarrow> (c, True))"

definition getNextMoveDuration :: "Elevator \<Rightarrow> int \<Rightarrow> int" where
  "getNextMoveDuration e target =
     (let dist = absFloat64 (wrap64 (target - floor' e))
      in if direction e = DirNone \<or> dist = 1
         then TravelTimeEdge (Config e)
         else TravelTime (Config e))"

definition handleArrival :: "Elevator \<Rightarrow> int \<Rightarrow> Elevator" where
  "handleArrival e f =
     (let openDoorSide = (case getFloorConfig e f of
                            (cfg, found) \<Rightarrow> if found then OpenDoorSide cfg else sideMask Front);
          e = (if openDoorSide AND sideMask Front \<noteq> 0 then setDoor e Front DoorOpening else e);
          e = (if openDoorSide AND sideMask Rear \<noteq> 0 then setDoor e Rear DoorOpening else e);
          e = e\<lparr>callFloors := callFloors e - {f}\<rparr>;
          e = publishEvent e (Arrived f openDoorSide)
      in e\<lparr>openWaitTime := DoorOpenTime (Config e), doorTimer := Some (DoorSpeed (Config e))\<rparr>)"

text \<open>The door state the timer handler and the OPEN button inspect.\<close>

definition activeDoorState :: "(Door \<Rightarrow> DoorState) \<Rightarrow> DoorState" where
  "activeDoorState ds = (if ds Front = DoorClose then ds Rear else ds Front)"

definition handleDoorTimeout :: "Elevator \<Rightarrow> Elevator" where
  "handleDoorTimeout e =
     (case activeDoorState (doors e) of
        DoorClose \<Rightarrow> e
      | DoorOpening \<Rightarrow>
          let e = (if doors e Front = DoorOpening then setDoor e Front DoorOpen else e);
              e = (if doors e Rear = DoorOpening then setDoor e Rear DoorOpen else e)
          in e\<lparr>doorTimer := Some (openWaitTime e)\<rparr>
      | DoorOpen \<Rightarrow>
          if isOpenButtonPressed e
          then e\<lparr>doorTimer := Some (DoorReopenTime (Config e))\<rparr>
          else if MaxWeight (Config e) > 0 \<and> weight e > MaxWeight (Config e)
          then e\<lparr>doorTimer := Some (openWaitTime e)\<rparr>
          else
            let e = (if doors e Front = DoorOpen then setDoor e Front DoorClosing else e);
                e = (if doors e Rear = DoorOpen then setDoor e Rear DoorClosing else e)
            in e\<lparr>doorTimer := Some (DoorSpeed (Config e))\<rparr>
      | DoorClosing \<Rightarrow>
          let e = (if doors e Front = DoorClosing then setDoor e Front DoorClose else e)
          in (if doors e Rear = DoorClosing then setDoor e Rear DoorClose else e))"

text \<open>
  \<^verbatim>\<open>handleMove\<close> returns \<^verbatim>\<open>(shouldContinue, nextDuration)\<close> beside the engine.
\<close>

definition handleMove :: "int list \<Rightarrow> Elevator \<Rightarrow> (bool \<times> int) \<times> Elevator" where
  "handleMove ks e =
     (let e = (case direction e of
                 DirUp \<Rightarrow> setFloor e (wrap64 (floor' e + 1))
               | DirDown \<Rightarrow> setFloor e (wrap64 (floor' e - 1))
               | DirNone \<Rightarrow> e)
      in if floor' e \<in> callFloors e
         then ((False, 0), handleArrival e (floor' e))
         else
           (case selectNextTarget ks e of
              (target, found) \<Rightarrow>
                if \<not> found then ((False, 0), setDirection e DirNone)
                else
                  let keepDirection = ((direction e = DirUp \<and> target > floor' e) \<or>
                                       (direction e = DirDown \<and> target < floor' e))
                  in if keepDirection then ((True, getNextMoveDuration e target), e)
                     else ((False, 0), setDirection e DirNone)))"

definition PressOpenButton :: "Elevator \<Rightarrow> Elevator" where
  "PressOpenButton e =
     (let e = e\<lparr>isOpenButtonPressed := True\<rparr>
      in case activeDoorState (doors e) of
           DoorClosing \<Rightarrow>
             let e = (if doors e Front = DoorClosing then setDoor e Front DoorOpening else e);
                 e = (if doors e Rear = DoorClosing then setDoor e Rear DoorOpening else e)
             in e\<lparr>openWaitTime := DoorReopenTime (Config e),
                  doorTimer := Some (DoorSpeed (Config e))\<rparr>
         | DoorOpen \<Rightarrow>
             e\<lparr>openWaitTime := DoorReopenTime (Config e),
               doorTimer := Some (DoorReopenTime (Config e))\<rparr>
         | DoorClose \<Rightarrow>
             if direction e = DirNone
             then
               let openSide = (case fcLookup (FloorConfigs (Config e)) (floor' e) of
                                 Some cfg \<Rightarrow> OpenDoorSide cfg
                               | None \<Rightarrow> sideMask Front);
                   e = (if openSide AND sideMask Front \<noteq> 0 then setDoor e Front DoorOpening else e);
                   e = (if openSide AND sideMask Rear \<noteq> 0 then setDoor e Rear DoorOpening else e)
               in e\<lparr>openWaitTime := DoorReopenTime (Config e),
                    doorTimer := Some (DoorSpeed (Config e))\<rparr>
             else e
         | DoorOpening \<Rightarrow> e)"

definition ReleaseOpenButton :: "Elevator \<Rightarrow> Elevator" where
  "ReleaseOpenButton e =
     (let e = e\<lparr>isOpenButtonPressed := False\<rparr>
      in if doors e Front = DoorOpen
         then e\<lparr>openWaitTime := DoorReopenTime (Config e),
                doorTimer := Some (DoorReopenTime (Config e))\<rparr>
         else e)"

definition PressCloseButton :: "Elevator \<Rightarrow> Elevator" where
  "PressCloseButton e =
     (if isOpenButtonPressed e then e
      else if doors e Front = DoorOpen then e\<lparr>doorTimer := Some 0\<rparr>
      else e)"

subsection \<open>The engine loop\<close>

text \<open>
  \<^verbatim>\<open>Run\<close> keeps \<^verbatim>\<open>isMoving\<close> and \<^verbatim>\<open>travelTimer\<close> as locals and hands them to
  \<^verbatim>\<open>step\<close>; the loop state is the engine with these two.
\<close>

record Loop =
  elev :: Elevator
  isMoving :: bool
  travelTimer :: "int option"

definition allDoorsClose :: "(Door \<Rightarrow> DoorState) \<Rightarrow> bool" where
  "allDoorsClose ds = (ds Front = DoorClose \<and> ds Rear = DoorClose)"

definition step :: "int list \<Rightarrow> Loop \<Rightarrow> Loop" where
  "step ks r =
     (let e = elev r
      in if Mode e \<noteq> ModeAuto then r
         else if isMoving r then r
         else if \<not> allDoorsClose (doors e) then r
         else
           (case selectNextTarget ks e of
              (target, found) \<Rightarrow>
                if \<not> found
                then (if direction e \<noteq> DirNone then r\<lparr>elev := e\<lparr>direction := DirNone\<rparr>\<rparr> else r)
                else
                  (case (if target > floor' e then Some DirUp
                         else if target < floor' e then Some DirDown
                         else None) of
                     None \<Rightarrow> r\<lparr>elev := handleArrival e target\<rparr>
                   | Some nextDir \<Rightarrow>
                       let duration = getNextMoveDuration e target;
                           e = setDirection e nextDir
                       in r\<lparr>elev := e, isMoving := True, travelTimer := Some duration\<rparr>)))"

text \<open>The \<^verbatim>\<open>travelTimer.C\<close> case of the loop.\<close>

definition onTravelTimer :: "int list \<Rightarrow> Loop \<Rightarrow> Loop" where
  "onTravelTimer ks r =
     (case handleMove ks (elev r) of
        ((shouldContinue, duration), e) \<Rightarrow>
          if shouldContinue then r\<lparr>elev := e, travelTimer := Some duration\<rparr>
          else r\<lparr>elev := e, isMoving := False, travelTimer := None\<rparr>)"

text \<open>The \<^verbatim>\<open>doorTimer.C\<close> case: the fire is consumed, then the handler runs.\<close>

definition onDoorTimer :: "Loop \<Rightarrow> Loop" where
  "onDoorTimer r = r\<lparr>elev := handleDoorTimeout ((elev r)\<lparr>doorTimer := None\<rparr>)\<rparr>"

section \<open>The logic-split engine\<close>

subsection \<open>ElevatorLogic (domain.go)\<close>

record LogicConfig =
  MinFloor_L :: int
  MaxFloor_L :: int
  InitialFloor_L :: int
  MaxWeight_L :: int
  FloorConfigs_L :: FloorConfigs

text \<open>
  \<^verbatim>\<open>LogicAction\<close>: the tag with the fields each tag uses (\<^verbatim>\<open>Target\<close> and
  \<^verbatim>\<open>Dir\<close> for a move, \<^verbatim>\<open>Target\<close> for an arrival).
\<close>

datatype LogicAction =
    ActionNone
  | ActionMove int Direction
  | ActionOpenDoor int
  | ActionCloseDoor
  | ActionStop

record ElevatorLogic =
  Config_L :: LogicConfig
  Floor :: int
  Direction :: Direction
  Doors :: "Door \<Rightarrow> DoorState"
  Weight :: int
  Calls :: "int set"

definition NewElevatorLogic :: "LogicConfig \<Rightarrow> ElevatorLogic option" where
  "NewElevatorLogic cfg =
     (case fillFloorConfigs (MinFloor_L cfg) (MaxFloor_L cfg)
             (case FloorConfigs_L cfg of None \<Rightarrow> Map.empty | Some m \<Rightarrow> m) of
        None \<Rightarrow> None
      | Some m \<Rightarrow>
          Some \<lparr>Config_L = cfg\<lparr>FloorConfigs_L := Some m\<rparr>,
                Floor = InitialFloor_L cfg,
                Direction = DirNone,
                Doors = (\<lambda>_. DoorClose),
                Weight = 0,
                Calls = {}\<rparr>)"

definition AddCall_L :: "ElevatorLogic \<Rightarrow> int \<Rightarrow> Error option \<times> ElevatorLogic" where
  "AddCall_L l f =
     (if f < MinFloor_L (Config_L l) \<or> f > MaxFloor_L (Config_L l)
      then (Some (FloorOutOfRange f), l)
      else
        let cfg = fcIndex (FloorConfigs_L (Config_L l)) f
        in if \<not> IsAccessible cfg then (Some (FloorInaccessible f), l)
           else (None, l\<lparr>Calls := insert f (Calls l)\<rparr>))"

definition RemoveCall_L :: "ElevatorLogic \<Rightarrow> int \<Rightarrow> ElevatorLogic" where
  "RemoveCall_L l f = l\<lparr>Calls := Calls l - {f}\<rparr>"

definition SetDoor_L :: "ElevatorLogic \<Rightarrow> Door \<Rightarrow> DoorState \<Rightarrow> ElevatorLogic" where
  "SetDoor_L l side state = l\<lparr>Doors := (Doors l)(side := state)\<rparr>"

definition SetFloor_L :: "ElevatorLogic \<Rightarrow> int \<Rightarrow> ElevatorLogic" where
  "SetFloor_L l f = l\<lparr>Floor := f\<rparr>"

definition SetDirection_L :: "ElevatorLogic \<Rightarrow> Direction \<Rightarrow> ElevatorLogic" where
  "SetDirection_L l d = l\<lparr>Direction := d\<rparr>"

definition AreDoorsClosed :: "ElevatorLogic \<Rightarrow> bool" where
  "AreDoorsClosed l = allDoorsClose (Doors l)"

text \<open>Phase 1 of the split scheduler keeps the current floor (\<^verbatim>\<open>>=\<close>, \<^verbatim>\<open><=\<close>).\<close>

definition phase1_L :: "int list \<Rightarrow> ElevatorLogic \<Rightarrow> scan" where
  "phase1_L ks l =
     (case Direction l of
        DirUp \<Rightarrow> rangeScan (\<lambda>f. f \<ge> Floor l) (\<lambda>f. wrap64 (f - Floor l)) ks scanInit
      | DirDown \<Rightarrow> rangeScan (\<lambda>f. f \<le> Floor l) (\<lambda>f. wrap64 (Floor l - f)) ks scanInit
      | DirNone \<Rightarrow> scanInit)"

definition phase2_L :: "int list \<Rightarrow> ElevatorLogic \<Rightarrow> scan" where
  "phase2_L ks l =
     rangeScan (\<lambda>f. True) (\<lambda>f. absFloat64 (wrap64 (f - Floor l))) ks scanInit"

definition selectNextTarget_L :: "int list \<Rightarrow> ElevatorLogic \<Rightarrow> int \<times> bool" where
  "selectNextTarget_L ks l =
     (if Calls l = {} then (0, False)
      else
        (case phase1_L ks l of
           (minDist, target, found) \<Rightarrow>
             if found then (target, True)
             else (case phase2_L ks l of (minDist, target, found) \<Rightarrow> (target, found))))"

definition DecideNextStep :: "int list \<Rightarrow> ElevatorLogic \<Rightarrow> LogicAction" where
  "DecideNextStep ks l =
     (if \<not> AreDoorsClosed l then ActionNone
      else if Calls l = {}
      then (if Direction l \<noteq> DirNone then ActionStop else ActionNone)
      else
        (case selectNextTarget_L ks l of
           (target, found) \<Rightarrow>
             if \<not> found
             then (if Direction l \<noteq> DirNone then ActionStop else ActionNone)
             else if target = Floor l then ActionOpenDoor target
             else ActionMove target (if target > Floor l then DirUp else DirDown)))"

subsection \<open>The service (pkg/elevator/elevator.go)\<close>

record Elevator_S =
  Config_S :: Config
  Logic :: ElevatorLogic
  Mode_S :: OperationMode
  openWaitTime_S :: int
  doorTimer_S :: "int option"
  eventCh_S :: "Event list"
  droppedEventCount_S :: nat
  isOpenButtonPressed_S :: bool

text \<open>
  \<^verbatim>\<open>New\<close> of the service builds the logic first and validates after. A non-nil
  \<^verbatim>\<open>FloorConfigs\<close> map is shared with the logic, so the defaults the logic fills in
  are seen through the service's \<^verbatim>\<open>Config\<close> as well; a nil map stays nil there.
\<close>

definition New_S :: "Config \<Rightarrow> (Error + Elevator_S) option" where
  "New_S config =
     (let logicConfig = \<lparr>MinFloor_L = MinFloor config,
                         MaxFloor_L = MaxFloor config,
                         InitialFloor_L = InitialFloor config,
                         MaxWeight_L = MaxWeight config,
                         FloorConfigs_L = FloorConfigs config\<rparr>
      in case NewElevatorLogic logicConfig of
           None \<Rightarrow> None
         | Some logic \<Rightarrow>
             if MinFloor config > MaxFloor config
             then Some (Inl (InvalidConfig (MinFloor config) (MaxFloor config)))
             else
               let config = (case FloorConfigs config of
                               None \<Rightarrow> config
                             | Some m \<Rightarrow> config\<lparr>FloorConfigs := FloorConfigs_L (Config_L logic)\<rparr>);
                   config = (if DoorReopenTime config = 0
                             then config\<lparr>DoorReopenTime := DoorOpenTime config\<rparr>
                             else config)
               in Some (Inr \<lparr>Config_S = config,
                             Logic = logic,
                             Mode_S = ModeAuto,
                             openWaitTime_S = DoorOpenTime config,
                             doorTimer_S = None,
                             eventCh_S = [],
                             droppedEventCount_S = 0,
                             isOpenButtonPressed_S = False\<rparr>))"

definition publishEvent_S :: "Elevator_S \<Rightarrow> Event \<Rightarrow> Elevator_S" where
  "publishEvent_S e ev =
     (if length (eventCh_S e) < 1000
      then e\<lparr>eventCh_S := eventCh_S e @ [ev]\<rparr>
      else e\<lparr>droppedEventCount_S := (droppedEventCount_S e + 1) mod 2 ^ 64\<rparr>)"

definition setDirection_S :: "Elevator_S \<Rightarrow> Direction \<Rightarrow> Elevator_S" where
  "setDirection_S e d =
     (if Direction (Logic e) \<noteq> d
      then publishEvent_S (e\<lparr>Logic := SetDirection_L (Logic e) d\<rparr>) (DirectionChange d)
      else e)"

definition setFloor_S :: "Elevator_S \<Rightarrow> int \<Rightarrow> Elevator_S" where
  "setFloor_S e f =
     (if Floor (Logic e) \<noteq> f
      then publishEvent_S (e\<lparr>Logic := SetFloor_L (Logic e) f\<rparr>) (FloorChange f)
      else e)"

definition setDoor_S :: "Elevator_S \<Rightarrow> Door \<Rightarrow> DoorState \<Rightarrow> Elevator_S" where
  "setDoor_S e side state =
     (if Doors (Logic e) side \<noteq> state
      then publishEvent_S (e\<lparr>Logic := SetDoor_L (Logic e) side state\<rparr>) (DoorChange side state)
      else e)"

text \<open>
  \<^verbatim>\<open>Reset\<close> replaces the logic by a new one built from the logic's configuration,
  which runs the fill loop again, and publishes four events unconditionally.
\<close>

definition Reset_S :: "Elevator_S \<Rightarrow> Elevator_S option" where
  "Reset_S e =
     (case NewElevatorLogic (Config_L (Logic e)) of
        None \<Rightarrow> None
      | Some logic \<Rightarrow>
          let e = e\<lparr>Logic := logic\<rparr>;
              e = publishEvent_S e (FloorChange (Floor (Logic e)));
              e = publishEvent_S e (DirectionChange (Direction (Logic e)));
              e = publishEvent_S e (DoorChange Front DoorClose)
          in Some (publishEvent_S e (DoorChange Rear DoorClose)))"

definition AddCall_S :: "Elevator_S \<Rightarrow> int \<Rightarrow> bool \<Rightarrow> Error option \<times> Elevator_S" where
  "AddCall_S e f isCarCall =
     (case AddCall_L (Logic e) f of (err, l) \<Rightarrow> (err, e\<lparr>Logic := l\<rparr>))"

definition RemoveCall_S :: "Elevator_S \<Rightarrow> int \<Rightarrow> Elevator_S" where
  "RemoveCall_S e f = e\<lparr>Logic := RemoveCall_L (Logic e) f\<rparr>"

definition ClearCalls_S :: "Elevator_S \<Rightarrow> Elevator_S" where
  "ClearCalls_S e = e\<lparr>Logic := (Logic e)\<lparr>Calls := {}\<rparr>\<rparr>"

definition AddWeight_S :: "Elevator_S \<Rightarrow> int \<Rightarrow> Elevator_S" where
  "AddWeight_S e w = e\<lparr>Logic := (Logic e)\<lparr>Weight := wrap64 (Weight (Logic e) + w)\<rparr>\<rparr>"

definition PressOpenButton_S :: "Elevator_S \<Rightarrow> Elevator_S" where
  "PressOpenButton_S e =
     (let e = e\<lparr>isOpenButtonPressed_S := True\<rparr>
      in if Doors (Logic e) Front = DoorClosing \<or> Doors (Logic e) Rear = DoorClosing
         then
           let e = setDoor_S e Front DoorOpening;
               e = setDoor_S e Rear DoorOpening
           in e\<lparr>doorTimer_S := Some (DoorSpeed (Config_S e))\<rparr>
         else if Doors (Logic e) Front = DoorOpen
         then e\<lparr>doorTimer_S := Some (DoorReopenTime (Config_S e))\<rparr>
         else e)"

definition ReleaseOpenButton_S :: "Elevator_S \<Rightarrow> Elevator_S" where
  "ReleaseOpenButton_S e = e\<lparr>isOpenButtonPressed_S := False\<rparr>"

text \<open>The close button shortens the door timer to one millisecond.\<close>

definition PressCloseButton_S :: "Elevator_S \<Rightarrow> Elevator_S" where
  "PressCloseButton_S e =
     (if (Doors (Logic e) Front = DoorOpen \<or> Doors (Logic e) Rear = DoorOpen)
         \<and> \<not> isOpenButtonPressed_S e
      then e\<lparr>doorTimer_S := Some 1000000\<rparr>
      else e)"

definition SetDoor_S :: "Elevator_S \<Rightarrow> Door \<Rightarrow> DoorState \<Rightarrow> Elevator_S" where
  "SetDoor_S e side state =
     (if Doors (Logic e) side \<noteq> state
      then publishEvent_S (e\<lparr>Logic := SetDoor_L (Logic e) side state\<rparr>) (DoorChange side state)
      else e)"

definition SetMode_S :: "Elevator_S \<Rightarrow> OperationMode \<Rightarrow> Elevator_S" where
  "SetMode_S e mode =
     (if Mode_S e = mode then e
      else
        let e = publishEvent_S (e\<lparr>Mode_S := mode\<rparr>) (ModeChange mode)
        in if mode = ModeEmergency
           then setDirection_S (e\<lparr>doorTimer_S := None\<rparr>) DirNone
           else e)"

definition handleArrival_S :: "Elevator_S \<Rightarrow> int \<Rightarrow> Elevator_S" where
  "handleArrival_S e f =
     (let openSide = (case fcLookup (FloorConfigs (Config_S e)) f of
                        Some cfg \<Rightarrow> OpenDoorSide cfg
                      | None \<Rightarrow> sideMask Front);
          e = (if openSide AND sideMask Front \<noteq> 0 then setDoor_S e Front DoorOpening else e);
          e = (if openSide AND sideMask Rear \<noteq> 0 then setDoor_S e Rear DoorOpening else e);
          e = e\<lparr>Logic := RemoveCall_L (Logic e) f\<rparr>;
          e = publishEvent_S e (Arrived f openSide)
      in e\<lparr>openWaitTime_S := DoorOpenTime (Config_S e),
           doorTimer_S := Some (DoorSpeed (Config_S e))\<rparr>)"

definition handleDoorTimeout_S :: "Elevator_S \<Rightarrow> Elevator_S" where
  "handleDoorTimeout_S e =
     (case activeDoorState (Doors (Logic e)) of
        DoorOpening \<Rightarrow>
          let e = (if Doors (Logic e) Front = DoorOpening then setDoor_S e Front DoorOpen else e);
              e = (if Doors (Logic e) Rear = DoorOpening then setDoor_S e Rear DoorOpen else e)
          in e\<lparr>doorTimer_S := Some (openWaitTime_S e)\<rparr>
      | DoorOpen \<Rightarrow>
          if MaxWeight (Config_S e) > 0 \<and> Weight (Logic e) > MaxWeight (Config_S e)
          then e\<lparr>doorTimer_S := Some (openWaitTime_S e)\<rparr>
          else if isOpenButtonPressed_S e
          then e\<lparr>doorTimer_S := Some (DoorReopenTime (Config_S e))\<rparr>
          else
            let e = (if Doors (Logic e) Front = DoorOpen then setDoor_S e Front DoorClosing else e);
                e = (if Doors (Logic e) Rear = DoorOpen then setDoor_S e Rear DoorClosing else e)
            in e\<lparr>doorTimer_S := Some (DoorSpeed (Config_S e))\<rparr>
      | DoorClosing \<Rightarrow> setDoor_S (setDoor_S e Front DoorClose) Rear DoorClose
      | DoorClose \<Rightarrow> e)"

definition handleMoveComplete :: "int list \<Rightarrow> Elevator_S \<Rightarrow> (bool \<times> int) \<times> Elevator_S" where
  "handleMoveComplete ks e =
     (let newFloor = (case Direction (Logic e) of
                        DirUp \<Rightarrow> wrap64 (Floor (Logic e) + 1)
                      | DirDown \<Rightarrow> wrap64 (Floor (Logic e) - 1)
                      | DirNone \<Rightarrow> Floor (Logic e));
          e = setFloor_S e newFloor
      in case DecideNextStep ks (Logic e) of
           ActionOpenDoor target \<Rightarrow> ((False, 0), handleArrival_S e (Floor (Logic e)))
         | ActionMove target dir \<Rightarrow>
             ((True, TravelTime (Config_S e)),
              (if dir \<noteq> Direction (Logic e) then setDirection_S e dir else e))
         | ActionNone \<Rightarrow> ((False, 0), setDirection_S e DirNone)
         | ActionStop \<Rightarrow> ((False, 0), setDirection_S e DirNone)
         | ActionCloseDoor \<Rightarrow> ((False, 0), setDirection_S e DirNone))"

record Loop_S =
  elev_S :: Elevator_S
  isMoving_S :: bool
  travelTimer_S :: "int option"

definition step_S :: "int list \<Rightarrow> Loop_S \<Rightarrow> Loop_S" where
  "step_S ks r =
     (let e = elev_S r
      in if Mode_S e \<noteq> ModeAuto then r
         else if isMoving_S r then r
         else
           (case DecideNextStep ks (Logic e) of
              ActionMove target dir \<Rightarrow>
                let e = setDirection_S e dir;
                    duration = TravelTime (Config_S e)
                in r\<lparr>elev_S := e, isMoving_S := True, travelTimer_S := Some duration\<rparr>
            | ActionStop \<Rightarrow>
                (if Direction (Logic e) \<noteq> DirNone
                 then r\<lparr>elev_S := setDirection_S e DirNone\<rparr>
                 else r)
            | ActionOpenDoor target \<Rightarrow> r\<lparr>elev_S := handleArrival_S e target\<rparr>
            | ActionNone \<Rightarrow> r
            | ActionCloseDoor \<Rightarrow> r))"

definition onTravelTimer_S :: "int list \<Rightarrow> Loop_S \<Rightarrow> Loop_S" where
  "onTravelTimer_S ks r =
     (case handleMoveComplete ks (elev_S r) of
        ((shouldContinue, duration), e) \<Rightarrow>
          if shouldContinue then r\<lparr>elev_S := e, travelTimer_S := Some duration\<rparr>
          else r\<lparr>elev_S := e, isMoving_S := False, travelTimer_S := None\<rparr>)"

definition onDoorTimer_S :: "Loop_S \<Rightarrow> Loop_S" where
  "onDoorTimer_S r = r\<lparr>elev_S := handleDoorTimeout_S ((elev_S r)\<lparr>doorTimer_S := None\<rparr>)\<rparr>"

section \<open>Runs of the engines\<close>

text \<open>
  What can happen to a running engine: the periodic tick, a fire of the travel timer,
  a fire of the door timer, a command of the public interface, and the observer
  receiving one event from the channel. A tick and a travel fire carry the order in
  which the scheduler's range visits the call map.
\<close>

datatype Command =
    CmdAddCall int bool
  | CmdRemoveCall int
  | CmdClearCalls
  | CmdPressOpen
  | CmdReleaseOpen
  | CmdPressClose
  | CmdSetMode OperationMode
  | CmdSetDoor Door DoorState
  | CmdAddWeight int
  | CmdReset

datatype Input =
    Tick "int list"
  | TravelFire "int list"
  | DoorFire
  | Cmd Command
  | Receive

fun command :: "Elevator \<Rightarrow> Command \<Rightarrow> Elevator" where
  "command e (CmdAddCall f isCarCall) = snd (AddCall e f isCarCall)"
| "command e (CmdRemoveCall f) = RemoveCall e f"
| "command e CmdClearCalls = ClearCalls e"
| "command e CmdPressOpen = PressOpenButton e"
| "command e CmdReleaseOpen = ReleaseOpenButton e"
| "command e CmdPressClose = PressCloseButton e"
| "command e (CmdSetMode m) = SetMode e m"
| "command e (CmdSetDoor side state) = SetDoor e side state"
| "command e (CmdAddWeight w) = AddWeight e w"
| "command e CmdReset = Reset e"

fun fire :: "Loop \<Rightarrow> Input \<Rightarrow> Loop" where
  "fire r (Tick ks) = step ks r"
| "fire r (TravelFire ks) = onTravelTimer ks r"
| "fire r DoorFire = onDoorTimer r"
| "fire r (Cmd c) = r\<lparr>elev := command (elev r) c\<rparr>"
| "fire r Receive = r\<lparr>elev := (elev r)\<lparr>eventCh := tl (eventCh (elev r))\<rparr>\<rparr>"

text \<open>
  An input can occur in a loop state: the range order enumerates the call map, the
  travel timer fires only while armed, an event is received only from a non-empty
  channel. The door timer may fire at any time, which covers a stale fire left in
  its channel by a restart.
\<close>

fun feasible :: "Loop \<Rightarrow> Input \<Rightarrow> bool" where
  "feasible r (Tick ks) = rangeOrder ks (callFloors (elev r))"
| "feasible r (TravelFire ks) = (travelTimer r \<noteq> None \<and> rangeOrder ks (callFloors (elev r)))"
| "feasible r DoorFire = True"
| "feasible r (Cmd c) = True"
| "feasible r Receive = (eventCh (elev r) \<noteq> [])"

fun run :: "Loop \<Rightarrow> Input list \<Rightarrow> Loop" where
  "run r [] = r"
| "run r (i # is) = run (fire r i) is"

fun feasibleRun :: "Loop \<Rightarrow> Input list \<Rightarrow> bool" where
  "feasibleRun r [] = True"
| "feasibleRun r (i # is) = (feasible r i \<and> feasibleRun (fire r i) is)"

definition startLoop :: "Elevator \<Rightarrow> Loop" where
  "startLoop e = \<lparr>elev = e, isMoving = False, travelTimer = None\<rparr>"

text \<open>The same for the split engine, whose \<^verbatim>\<open>Reset\<close> may not return.\<close>

fun command_S :: "Elevator_S \<Rightarrow> Command \<Rightarrow> Elevator_S option" where
  "command_S e (CmdAddCall f isCarCall) = Some (snd (AddCall_S e f isCarCall))"
| "command_S e (CmdRemoveCall f) = Some (RemoveCall_S e f)"
| "command_S e CmdClearCalls = Some (ClearCalls_S e)"
| "command_S e CmdPressOpen = Some (PressOpenButton_S e)"
| "command_S e CmdReleaseOpen = Some (ReleaseOpenButton_S e)"
| "command_S e CmdPressClose = Some (PressCloseButton_S e)"
| "command_S e (CmdSetMode m) = Some (SetMode_S e m)"
| "command_S e (CmdSetDoor side state) = Some (SetDoor_S e side state)"
| "command_S e (CmdAddWeight w) = Some (AddWeight_S e w)"
| "command_S e CmdReset = Reset_S e"

fun fire_S :: "Loop_S \<Rightarrow> Input \<Rightarrow> Loop_S option" where
  "fire_S r (Tick ks) = Some (step_S ks r)"
| "fire_S r (TravelFire ks) = Some (onTravelTimer_S ks r)"
| "fire_S r DoorFire = Some (onDoorTimer_S r)"
| "fire_S r (Cmd c) =
     (case command_S (elev_S r) c of None \<Rightarrow> None | Some e \<Rightarrow> Some (r\<lparr>elev_S := e\<rparr>))"
| "fire_S r Receive = Some (r\<lparr>elev_S := (elev_S r)\<lparr>eventCh_S := tl (eventCh_S (elev_S r))\<rparr>\<rparr>)"

fun feasible_S :: "Loop_S \<Rightarrow> Input \<Rightarrow> bool" where
  "feasible_S r (Tick ks) = rangeOrder ks (Calls (Logic (elev_S r)))"
| "feasible_S r (TravelFire ks) =
     (travelTimer_S r \<noteq> None \<and> rangeOrder ks (Calls (Logic (elev_S r))))"
| "feasible_S r DoorFire = True"
| "feasible_S r (Cmd c) = True"
| "feasible_S r Receive = (eventCh_S (elev_S r) \<noteq> [])"

fun run_S :: "Loop_S \<Rightarrow> Input list \<Rightarrow> Loop_S option" where
  "run_S r [] = Some r"
| "run_S r (i # is) = (case fire_S r i of None \<Rightarrow> None | Some r' \<Rightarrow> run_S r' is)"

fun feasibleRun_S :: "Loop_S \<Rightarrow> Input list \<Rightarrow> bool" where
  "feasibleRun_S r [] = True"
| "feasibleRun_S r (i # is) =
     (feasible_S r i \<and> (case fire_S r i of None \<Rightarrow> True | Some r' \<Rightarrow> feasibleRun_S r' is))"

definition startLoop_S :: "Elevator_S \<Rightarrow> Loop_S" where
  "startLoop_S e = \<lparr>elev_S = e, isMoving_S = False, travelTimer_S = None\<rparr>"

section \<open>Notions used by the statements\<close>

subsection \<open>Value ranges\<close>

text \<open>
  \<open>int64\<close>: a value of Go's \<^verbatim>\<open>int\<close>. \<open>small\<close>: a floor number far enough from the
  limits that hops and distances neither wrap nor lose precision as a float64.
\<close>

definition int64 :: "int \<Rightarrow> bool" where
  "int64 x = (- (2 ^ 63) \<le> x \<and> x < 2 ^ 63)"

definition small :: "int \<Rightarrow> bool" where
  "small x = (\<bar>x\<bar> < 2 ^ 52)"

definition floorsSmall :: "int \<Rightarrow> int set \<Rightarrow> bool" where
  "floorsSmall fl cs = (small fl \<and> (\<forall>f \<in> cs. small f))"

subsection \<open>Positions relative to the heading\<close>

definition strictlyAhead :: "Direction \<Rightarrow> int \<Rightarrow> int \<Rightarrow> bool" where
  "strictlyAhead d fl f = (case d of DirUp \<Rightarrow> f > fl | DirDown \<Rightarrow> f < fl | DirNone \<Rightarrow> False)"

definition aheadOrHere :: "Direction \<Rightarrow> int \<Rightarrow> int \<Rightarrow> bool" where
  "aheadOrHere d fl f = (case d of DirUp \<Rightarrow> f \<ge> fl | DirDown \<Rightarrow> f \<le> fl | DirNone \<Rightarrow> False)"


subsection \<open>State predicates\<close>

text \<open>
  \<open>motionSafe\<close>: a travel is in progress exactly while the travel timer is armed, and
  while it is in progress with direction Up or Down both doors are Close.
  \<open>callsOk\<close>: every pending call is in range and accessible.
\<close>

fun isSetDoor :: "Input \<Rightarrow> bool" where
  "isSetDoor (Cmd (CmdSetDoor side state)) = True"
| "isSetDoor i = False"

definition motionSafe :: "Loop \<Rightarrow> bool" where
  "motionSafe r =
     ((isMoving r = (travelTimer r \<noteq> None)) \<and>
      (isMoving r \<and> direction (elev r) \<noteq> DirNone \<longrightarrow> allDoorsClose (doors (elev r))))"

definition motionSafe_S :: "Loop_S \<Rightarrow> bool" where
  "motionSafe_S r =
     ((isMoving_S r = (travelTimer_S r \<noteq> None)) \<and>
      (isMoving_S r \<and> Direction (Logic (elev_S r)) \<noteq> DirNone
         \<longrightarrow> allDoorsClose (Doors (Logic (elev_S r)))))"

definition callsOk :: "Elevator \<Rightarrow> bool" where
  "callsOk e =
     (\<forall>f \<in> callFloors e. MinFloor (Config e) \<le> f \<and> f \<le> MaxFloor (Config e) \<and>
                          IsAccessible (fcIndex (FloorConfigs (Config e)) f))"

definition callsOk_L :: "ElevatorLogic \<Rightarrow> bool" where
  "callsOk_L l =
     (\<forall>f \<in> Calls l. MinFloor_L (Config_L l) \<le> f \<and> f \<le> MaxFloor_L (Config_L l) \<and>
                     IsAccessible (fcIndex (FloorConfigs_L (Config_L l)) f))"

text \<open>The floor's entry in the configuration given to \<^verbatim>\<open>New\<close> marks it inaccessible.\<close>

definition markedInaccessible :: "Config \<Rightarrow> int \<Rightarrow> bool" where
  "markedInaccessible c f =
     (case fcLookup (FloorConfigs c) f of None \<Rightarrow> False | Some fc \<Rightarrow> \<not> IsAccessible fc)"

subsection \<open>What construction returns\<close>

text \<open>
  The closed form of the fill loop and the engines \<^verbatim>\<open>New\<close> builds from a
  configuration (proved equal to what \<^verbatim>\<open>New\<close> returns in \<open>New_returns\<close> and
  \<open>New_S_returns\<close>).
\<close>

definition filled :: "int \<Rightarrow> int \<Rightarrow> (int \<rightharpoonup> FloorConfig) \<Rightarrow> (int \<rightharpoonup> FloorConfig)" where
  "filled lo hi m =
     (\<lambda>f. if lo \<le> f \<and> f \<le> hi \<and> m f = None then Some (defaultFloorConfig f) else m f)"

definition filledConfigs :: "Config \<Rightarrow> FloorConfigs" where
  "filledConfigs c =
     Some (filled (MinFloor c) (MaxFloor c)
             (case FloorConfigs c of None \<Rightarrow> Map.empty | Some m \<Rightarrow> m))"

definition storedConfig :: "Config \<Rightarrow> Config" where
  "storedConfig c =
     (let config = c\<lparr>FloorConfigs := filledConfigs c\<rparr>
      in if DoorReopenTime config = 0
         then config\<lparr>DoorReopenTime := DoorOpenTime config\<rparr>
         else config)"

definition initialElevator :: "Config \<Rightarrow> Elevator" where
  "initialElevator c =
     \<lparr>Config = storedConfig c,
      Mode = ModeAuto,
      floor' = InitialFloor c,
      direction = DirNone,
      doors = (\<lambda>_. DoorClose),
      weight = 0,
      openWaitTime = DoorOpenTime c,
      callFloors = {},
      doorTimer = None,
      eventCh = [],
      droppedEventCount = 0,
      isOpenButtonPressed = False\<rparr>"

definition logicConfigOf :: "Config \<Rightarrow> LogicConfig" where
  "logicConfigOf c =
     \<lparr>MinFloor_L = MinFloor c,
      MaxFloor_L = MaxFloor c,
      InitialFloor_L = InitialFloor c,
      MaxWeight_L = MaxWeight c,
      FloorConfigs_L = filledConfigs c\<rparr>"

definition initialLogic :: "Config \<Rightarrow> ElevatorLogic" where
  "initialLogic c =
     \<lparr>Config_L = logicConfigOf c,
      Floor = InitialFloor c,
      Direction = DirNone,
      Doors = (\<lambda>_. DoorClose),
      Weight = 0,
      Calls = {}\<rparr>"

definition storedConfig_S :: "Config \<Rightarrow> Config" where
  "storedConfig_S c =
     (let config = (case FloorConfigs c of
                      None \<Rightarrow> c
                    | Some m \<Rightarrow> c\<lparr>FloorConfigs := filledConfigs c\<rparr>)
      in if DoorReopenTime config = 0
         then config\<lparr>DoorReopenTime := DoorOpenTime config\<rparr>
         else config)"

definition initialElevator_S :: "Config \<Rightarrow> Elevator_S" where
  "initialElevator_S c =
     \<lparr>Config_S = storedConfig_S c,
      Logic = initialLogic c,
      Mode_S = ModeAuto,
      openWaitTime_S = DoorOpenTime c,
      doorTimer_S = None,
      eventCh_S = [],
      droppedEventCount_S = 0,
      isOpenButtonPressed_S = False\<rparr>"

subsection \<open>Example configurations, states and input sequences\<close>

text \<open>
  Floors 1 to 10, travel 1 s (edge 1.5 s), door speed 0.5 s, open time 3 s, reopen time
  5 s, maximum load 1000 kg.
\<close>

definition demoConfig :: Config where
  "demoConfig =
     \<lparr>TravelTime = 1000000000,
      TravelTimeEdge = 1500000000,
      DoorSpeed = 500000000,
      DoorOpenTime = 3000000000,
      DoorReopenTime = 5000000000,
      InitialFloor = 1,
      MinFloor = 1,
      MaxFloor = 10,
      MaxWeight = 1000,
      FloorConfigs = None\<rparr>"

definition badInitialConfig :: Config where
  "badInitialConfig = demoConfig\<lparr>InitialFloor := 42\<rparr>"

definition accessConfig :: Config where
  "accessConfig =
     demoConfig\<lparr>FloorConfigs :=
       Some [4 \<mapsto> \<lparr>FloorNumber = 4, IsAccessible = False, OpenDoorSide = 1\<rparr>]\<rparr>"


definition startTrace :: "Input list" where
  "startTrace = [Cmd (CmdAddCall 3 True), Tick [3]]"

definition arrivalTrace :: "Input list" where
  "arrivalTrace = [Cmd (CmdAddCall 2 True), Tick [2], TravelFire [2]]"

definition moveTrace :: "Input list" where
  "moveTrace = [Cmd (CmdAddCall 3 True), Tick [3], TravelFire [3]]"

definition staleTimerTrace :: "Input list" where
  "staleTimerTrace = [Cmd (CmdAddCall 1 True), Tick [1], Cmd CmdReset]"

definition doorsOpenTrace :: "Input list" where
  "doorsOpenTrace = [Cmd (CmdAddCall 1 True), Tick [1], Cmd (CmdAddCall 3 True)]"

definition callsTrace :: "Input list" where
  "callsTrace = [Cmd (CmdAddCall 3 True), Cmd (CmdAddCall 4 True), Cmd (CmdAddCall 42 False),
                 Cmd (CmdAddCall 7 False), Cmd (CmdAddCall 3 False)]"




definition reopenConfig :: Config where
  "reopenConfig = demoConfig\<lparr>InitialFloor := 4\<rparr>"

text \<open>
  From floor 4: calls for 5 and 7, a tick, one hop to floor 5 with the arrival there,
  the door cycle, then a new call for floor 5 while the heading is still Up.
\<close>

definition reopenTrace :: "Input list" where
  "reopenTrace = [Cmd (CmdAddCall 5 True), Cmd (CmdAddCall 7 True), Tick [5, 7], TravelFire [5, 7],
                  DoorFire, DoorFire, DoorFire, Cmd (CmdAddCall 5 False)]"

definition schedulerView_S ::
    "int list \<Rightarrow> Loop_S option \<Rightarrow> (int \<times> Direction \<times> int set \<times> bool \<times> scan \<times> (int \<times> bool)) option" where
  "schedulerView_S ks r =
     map_option (\<lambda>r. (Floor (Logic (elev_S r)), Direction (Logic (elev_S r)),
                       Calls (Logic (elev_S r)), allDoorsClose (Doors (Logic (elev_S r))),
                       phase1_L ks (Logic (elev_S r)),
                       selectNextTarget_L ks (Logic (elev_S r)))) r"

text \<open>The demo engines, idle at floor 1, after a call for floor \<open>f\<close>.\<close>

definition called :: "int \<Rightarrow> Loop" where
  "called f = startLoop (snd (AddCall (initialElevator demoConfig) f True))"

definition called_S :: "int \<Rightarrow> Loop_S" where
  "called_S f = startLoop_S (snd (AddCall_S (initialElevator_S demoConfig) f True))"

text \<open>The logic state of the repository's test scenario: floor 5, heading Up.\<close>

definition headingUpLogic :: "int set \<Rightarrow> ElevatorLogic" where
  "headingUpLogic cs = (initialLogic demoConfig)\<lparr>Floor := 5, Direction := DirUp, Calls := cs\<rparr>"

definition headingUpElevator :: "int set \<Rightarrow> Elevator" where
  "headingUpElevator cs =
     (initialElevator demoConfig)\<lparr>floor' := 5, direction := DirUp, callFloors := cs\<rparr>"


definition floorOf_S :: "Loop_S option \<Rightarrow> int option" where
  "floorOf_S r = map_option (\<lambda>r. Floor (Logic (elev_S r))) r"

definition headingOf_S :: "Loop_S option \<Rightarrow> (Direction \<times> DoorState) option" where
  "headingOf_S r =
     map_option (\<lambda>r. (Direction (Logic (elev_S r)), Doors (Logic (elev_S r)) Front)) r"

definition callsOf_S :: "Loop_S option \<Rightarrow> int set option" where
  "callsOf_S r = map_option (\<lambda>r. Calls (Logic (elev_S r))) r"

definition motionOf_S :: "Loop_S option \<Rightarrow> (bool \<times> Direction \<times> bool) option" where
  "motionOf_S r =
     map_option (\<lambda>r. (isMoving_S r, Direction (Logic (elev_S r)),
                       allDoorsClose (Doors (Logic (elev_S r))))) r"

section \<open>Lemmas\<close>

subsection \<open>Machine arithmetic and the range loop\<close>

lemma wrap64_id: "- (2 ^ 63) \<le> x \<Longrightarrow> x < 2 ^ 63 \<Longrightarrow> wrap64 x = x"
  unfolding wrap64_def by simp

lemma wrap64_small_diff: "small a \<Longrightarrow> small b \<Longrightarrow> wrap64 (a - b) = a - b"
  by (rule wrap64_id) (auto simp: small_def)

lemma int64_wrap64 [simp]: "int64 (wrap64 x)"
  by (simp add: int64_def wrap64_def)

lemma small_dist: "small a \<Longrightarrow> small b \<Longrightarrow> \<bar>a - b\<bar> < MaxInt64"
  by (auto simp: small_def MaxInt64_def)

lemma small_step: "small a \<Longrightarrow> wrap64 (a + 1) = a + 1 \<and> wrap64 (a - 1) = a - 1"
  by (auto intro!: wrap64_id simp: small_def)

lemma small_hop_dist: "small a \<Longrightarrow> small t \<Longrightarrow>
   wrap64 (t - (a + 1)) = t - (a + 1) \<and> wrap64 (t - (a - 1)) = t - (a - 1)"
  by (auto intro!: wrap64_id simp: small_def)

lemma rangeScan_none:
  "\<forall>k \<in> set ks. \<not> (ok k \<and> dist k < m0) \<Longrightarrow> rangeScan ok dist ks (m0, t0, f0) = (m0, t0, f0)"
  by (induction ks) auto

lemma rangeScan_some:
  "\<exists>k \<in> set ks. ok k \<and> dist k < m0 \<Longrightarrow>
   \<exists>t \<in> set ks. rangeScan ok dist ks (m0, t0, f0) = (dist t, t, True) \<and> ok t \<and> dist t < m0 \<and>
       (\<forall>k \<in> set ks. ok k \<longrightarrow> dist t \<le> dist k)"
proof (induction ks arbitrary: m0 t0 f0)
  case Nil
  then show ?case by simp
next
  case (Cons a ks)
  show ?case
  proof (cases "ok a \<and> dist a < m0")
    case take: True
    show ?thesis
    proof (cases "\<exists>k \<in> set ks. ok k \<and> dist k < dist a")
      case True
      from Cons.IH[OF True, of a True] obtain t where t: "t \<in> set ks"
        "rangeScan ok dist ks (dist a, a, True) = (dist t, t, True)" "ok t" "dist t < dist a"
        "\<forall>k \<in> set ks. ok k \<longrightarrow> dist t \<le> dist k" by blast
      with take show ?thesis by (intro bexI[of _ t]) auto
    next
      case False
      then have "rangeScan ok dist ks (dist a, a, True) = (dist a, a, True)"
        by (intro rangeScan_none) auto
      with take False show ?thesis by (intro bexI[of _ a]) (auto simp: not_less)
    qed
  next
    case skip: False
    with Cons.prems have ex: "\<exists>k \<in> set ks. ok k \<and> dist k < m0" by auto
    from Cons.IH[OF ex, of t0 f0] obtain t where t: "t \<in> set ks"
      "rangeScan ok dist ks (m0, t0, f0) = (dist t, t, True)" "ok t" "dist t < m0"
      "\<forall>k \<in> set ks. ok k \<longrightarrow> dist t \<le> dist k" by blast
    with skip show ?thesis by (intro bexI[of _ t]) (auto simp: not_less)
  qed
qed

lemma rangeScan_found:
  "rangeScan ok dist ks (m0, t0, False) = (md, t, True) \<Longrightarrow> t \<in> set ks"
proof -
  assume a: "rangeScan ok dist ks (m0, t0, False) = (md, t, True)"
  show ?thesis
  proof (cases "\<exists>k \<in> set ks. ok k \<and> dist k < m0")
    case True
    from rangeScan_some[OF True, of t0 False] a show ?thesis by auto
  next
    case False
    then have "rangeScan ok dist ks (m0, t0, False) = (m0, t0, False)"
      by (intro rangeScan_none) auto
    with a show ?thesis by simp
  qed
qed


lemma rangeScan_cong:
  "\<forall>k \<in> set ks. ok k = ok' k \<and> (ok k \<longrightarrow> dist k = dist' k) \<Longrightarrow>
   rangeScan ok dist ks acc = rangeScan ok' dist' ks acc"
proof (induction ks arbitrary: acc)
  case Nil
  then show ?case by simp
next
  case (Cons a ks)
  obtain m t f where acc: "acc = (m, t, f)" by (cases acc)
  from Cons show ?case unfolding acc by auto
qed

lemma scan_result:
  assumes "\<forall>k \<in> set ks. ok k \<longrightarrow> dist k < MaxInt64"
  shows "case rangeScan ok dist ks scanInit of
           (md, t, fd) \<Rightarrow>
             (fd \<longleftrightarrow> (\<exists>k \<in> set ks. ok k)) \<and>
             (fd \<longrightarrow> t \<in> set ks \<and> ok t \<and> md = dist t \<and> (\<forall>k \<in> set ks. ok k \<longrightarrow> dist t \<le> dist k))"
proof (cases "\<exists>k \<in> set ks. ok k")
  case True
  with assms have "\<exists>k \<in> set ks. ok k \<and> dist k < MaxInt64" by auto
  from rangeScan_some[OF this, of "- 1" False] True show ?thesis
    by (auto simp: scanInit_def)
next
  case False
  then have "rangeScan ok dist ks scanInit = scanInit"
    unfolding scanInit_def by (intro rangeScan_none) auto
  with False show ?thesis by (simp add: scanInit_def)
qed

subsection \<open>The fill loop and construction\<close>

lemma filled_step:
  "i \<le> mx \<Longrightarrow> filled (i + 1) mx (if m i = None then m(i \<mapsto> defaultFloorConfig i) else m) = filled i mx m"
proof
  fix x
  assume "i \<le> mx"
  then show "filled (i + 1) mx (if m i = None then m(i \<mapsto> defaultFloorConfig i) else m) x = filled i mx m x"
    by (cases "x = i") (auto simp: filled_def)
qed

lemma filled_idem: "filled lo hi (filled lo hi m) = filled lo hi m"
  by (auto simp: filled_def fun_eq_iff)

lemma fillFloorConfigs_returns:
  assumes "mx < MaxInt64" "int64 i"
  shows "fillFloorConfigs i mx m = Some (filled i mx m)"
  using assms
proof (induction "nat (mx + 1 - i)" arbitrary: i m)
  case 0
  then have "\<not> i \<le> mx" by simp
  then show ?case
    by (subst fillFloorConfigs.simps) (auto simp: filled_def)
next
  case (Suc n)
  then have le: "i \<le> mx" by simp
  with Suc.prems have w: "wrap64 (i + 1) = i + 1"
    by (intro wrap64_id) (auto simp: MaxInt64_def int64_def)
  have n: "n = nat (mx + 1 - (i + 1))" using Suc.hyps(2) by simp
  have "int64 (i + 1)" using w int64_wrap64[of "i + 1"] by simp
  then have "fillFloorConfigs (i + 1) mx (if m i = None then m(i \<mapsto> defaultFloorConfig i) else m)
        = Some (filled (i + 1) mx (if m i = None then m(i \<mapsto> defaultFloorConfig i) else m))"
    using Suc.hyps(1)[OF n] Suc.prems by simp
  then show ?case
    using le w by (subst fillFloorConfigs.simps) (simp add: filled_step)
qed

text \<open>Whenever the loop returns, the bound held and the result is the closed form.\<close>

lemma fillFloorConfigs_Some:
  assumes "fillFloorConfigs i mx m = Some y"
  shows "int64 i \<longrightarrow> (mx < i \<or> mx < MaxInt64) \<and> y = filled i mx m"
proof (rule fillFloorConfigs.raw_induct[where
      P = "\<lambda>i mx m y. int64 i \<longrightarrow> (mx < i \<or> mx < MaxInt64) \<and> y = filled i mx m", OF _ assms])
  fix fill :: "int \<Rightarrow> int \<Rightarrow> (int \<rightharpoonup> FloorConfig) \<Rightarrow> (int \<rightharpoonup> FloorConfig) option"
  fix i mx :: int and m y :: "int \<rightharpoonup> FloorConfig"
  assume IH: "\<And>i mx m y. fill i mx m = Some y \<Longrightarrow>
      int64 i \<longrightarrow> (mx < i \<or> mx < MaxInt64) \<and> y = filled i mx m"
  assume res: "(if i \<le> mx
       then fill (wrap64 (i + 1)) mx (if m i = None then m(i \<mapsto> defaultFloorConfig i) else m)
       else Some m) = Some y"
  show "int64 i \<longrightarrow> (mx < i \<or> mx < MaxInt64) \<and> y = filled i mx m"
  proof (cases "i \<le> mx")
    case True
    with res have r: "fill (wrap64 (i + 1)) mx (if m i = None then m(i \<mapsto> defaultFloorConfig i) else m) = Some y"
      by simp
    from IH[OF r] have ih: "(mx < wrap64 (i + 1) \<or> mx < MaxInt64) \<and>
        y = filled (wrap64 (i + 1)) mx (if m i = None then m(i \<mapsto> defaultFloorConfig i) else m)"
      by simp
    show ?thesis
    proof
      assume i: "int64 i"
      have lt: "mx < MaxInt64"
      proof (rule ccontr)
        assume "\<not> mx < MaxInt64"
        with ih have "mx < wrap64 (i + 1)" "MaxInt64 \<le> mx" by auto
        moreover have "wrap64 (i + 1) \<le> MaxInt64"
          using int64_wrap64[of "i + 1"] by (simp add: int64_def MaxInt64_def)
        ultimately show False by simp
      qed
      with True i have "wrap64 (i + 1) = i + 1"
        by (intro wrap64_id) (auto simp: int64_def MaxInt64_def)
      with ih True lt show "(mx < i \<or> mx < MaxInt64) \<and> y = filled i mx m"
        by (simp add: filled_step)
    qed
  next
    case False
    with res show ?thesis by (auto simp: filled_def)
  qed
qed

lemma fillFloorConfigs_diverges:
  assumes "int64 i" "i \<le> mx" "MaxInt64 \<le> mx"
  shows "fillFloorConfigs i mx m = None"
proof (cases "fillFloorConfigs i mx m")
  case None
  then show ?thesis .
next
  case (Some y)
  from fillFloorConfigs_Some[OF Some] assms show ?thesis by simp
qed

lemma storedConfig_fields [simp]:
  "MinFloor (storedConfig c) = MinFloor c"
  "MaxFloor (storedConfig c) = MaxFloor c"
  "InitialFloor (storedConfig c) = InitialFloor c"
  "MaxWeight (storedConfig c) = MaxWeight c"
  "TravelTime (storedConfig c) = TravelTime c"
  "TravelTimeEdge (storedConfig c) = TravelTimeEdge c"
  "DoorSpeed (storedConfig c) = DoorSpeed c"
  "DoorOpenTime (storedConfig c) = DoorOpenTime c"
  "FloorConfigs (storedConfig c) = filledConfigs c"
  by (simp_all add: storedConfig_def Let_def)

lemma storedConfig_S_fields [simp]:
  "MinFloor (storedConfig_S c) = MinFloor c"
  "MaxFloor (storedConfig_S c) = MaxFloor c"
  "InitialFloor (storedConfig_S c) = InitialFloor c"
  "MaxWeight (storedConfig_S c) = MaxWeight c"
  "TravelTime (storedConfig_S c) = TravelTime c"
  "TravelTimeEdge (storedConfig_S c) = TravelTimeEdge c"
  "DoorSpeed (storedConfig_S c) = DoorSpeed c"
  "DoorOpenTime (storedConfig_S c) = DoorOpenTime c"
  by (simp_all add: storedConfig_S_def Let_def split: option.splits)

lemma logicConfigOf_fields [simp]:
  "MinFloor_L (logicConfigOf c) = MinFloor c"
  "MaxFloor_L (logicConfigOf c) = MaxFloor c"
  "InitialFloor_L (logicConfigOf c) = InitialFloor c"
  "MaxWeight_L (logicConfigOf c) = MaxWeight c"
  "FloorConfigs_L (logicConfigOf c) = filledConfigs c"
  by (simp_all add: logicConfigOf_def)

lemma initialElevator_fields [simp]:
  "floor' (initialElevator c) = InitialFloor c"
  "direction (initialElevator c) = DirNone"
  "doors (initialElevator c) = (\<lambda>_. DoorClose)"
  "Mode (initialElevator c) = ModeAuto"
  "callFloors (initialElevator c) = {}"
  "Config (initialElevator c) = storedConfig c"
  by (simp_all add: initialElevator_def)

lemma initialElevator_S_fields [simp]:
  "Logic (initialElevator_S c) = initialLogic c"
  "Mode_S (initialElevator_S c) = ModeAuto"
  "Config_S (initialElevator_S c) = storedConfig_S c"
  by (simp_all add: initialElevator_S_def)

lemma initialLogic_fields [simp]:
  "Floor (initialLogic c) = InitialFloor c"
  "Direction (initialLogic c) = DirNone"
  "Doors (initialLogic c) = (\<lambda>_. DoorClose)"
  "Calls (initialLogic c) = {}"
  "Config_L (initialLogic c) = logicConfigOf c"
  by (simp_all add: initialLogic_def)

lemma New_Inl: "(\<exists>err. New c = Some (Inl err)) \<longleftrightarrow> MinFloor c > MaxFloor c"
  by (auto simp: New_def Let_def split: option.splits)

lemma New_returns:
  assumes "MinFloor c \<le> MaxFloor c" "MaxFloor c < MaxInt64" "int64 (MinFloor c)"
  shows "New c = Some (Inr (initialElevator c))"
  using assms
  by (simp add: New_def fillFloorConfigs_returns initialElevator_def storedConfig_def
        filledConfigs_def Let_def)

lemma New_Inr:
  assumes "New c = Some (Inr e)" "int64 (MinFloor c)"
  shows "e = initialElevator c \<and> MinFloor c \<le> MaxFloor c \<and> MaxFloor c < MaxInt64"
proof -
  from assms(1) have le: "MinFloor c \<le> MaxFloor c"
    by (auto simp: New_def split: if_splits)
  with assms(1) obtain m where
    m: "fillFloorConfigs (MinFloor c) (MaxFloor c)
          (case FloorConfigs c of None \<Rightarrow> Map.empty | Some m \<Rightarrow> m) = Some m"
    by (auto simp: New_def split: option.splits)
  from fillFloorConfigs_Some[OF m] assms(2) le have lt: "MaxFloor c < MaxInt64" by auto
  from New_returns[OF le lt assms(2)] assms(1) lt le show ?thesis by simp
qed

lemma New_Inr_fields:
  assumes "New c = Some (Inr e)"
  shows "callFloors e = {}" "MinFloor (Config e) = MinFloor c" "MaxFloor (Config e) = MaxFloor c"
  using assms by (auto simp: New_def Let_def split: if_splits option.splits)

text \<open>With the highest floor at the largest int the fill loop never ends.\<close>

lemma New_does_not_return:
  assumes "int64 (MinFloor c)" "MinFloor c \<le> MaxFloor c" "MaxInt64 \<le> MaxFloor c"
  shows "New c = None" "New_S c = None"
  using assms fillFloorConfigs_diverges[of "MinFloor c" "MaxFloor c"]
  by (simp_all add: New_def New_S_def NewElevatorLogic_def)

lemma NewElevatorLogic_returns:
  assumes "MaxFloor_L lc < MaxInt64 \<or> MaxFloor_L lc < MinFloor_L lc" "int64 (MinFloor_L lc)"
  shows "NewElevatorLogic lc =
     Some \<lparr>Config_L = lc\<lparr>FloorConfigs_L := Some (filled (MinFloor_L lc) (MaxFloor_L lc)
                (case FloorConfigs_L lc of None \<Rightarrow> Map.empty | Some m \<Rightarrow> m))\<rparr>,
           Floor = InitialFloor_L lc, Direction = DirNone, Doors = (\<lambda>_. DoorClose),
           Weight = 0, Calls = {}\<rparr>"
proof (cases "MaxFloor_L lc < MinFloor_L lc")
  case True
  then have "filled (MinFloor_L lc) (MaxFloor_L lc) m = m" for m
    by (auto simp: filled_def fun_eq_iff)
  with True show ?thesis
    by (simp add: NewElevatorLogic_def fillFloorConfigs.simps[of "MinFloor_L lc"])
next
  case False
  with assms show ?thesis
    by (simp add: NewElevatorLogic_def fillFloorConfigs_returns)
qed

lemma New_S_Inl: "(\<exists>err. New_S c = Some (Inl err)) \<longleftrightarrow> MinFloor c > MaxFloor c"
proof
  assume "\<exists>err. New_S c = Some (Inl err)"
  then show "MinFloor c > MaxFloor c"
    by (auto simp: New_S_def Let_def split: option.splits if_splits)
next
  assume gt: "MinFloor c > MaxFloor c"
  then have "fillFloorConfigs (MinFloor c) (MaxFloor c) m = Some m" for m
    by (subst fillFloorConfigs.simps) simp
  with gt show "\<exists>err. New_S c = Some (Inl err)"
    by (simp add: New_S_def NewElevatorLogic_def Let_def)
qed

lemma New_S_returns:
  assumes "MinFloor c \<le> MaxFloor c" "MaxFloor c < MaxInt64" "int64 (MinFloor c)"
  shows "New_S c = Some (Inr (initialElevator_S c))"
  using assms
  by (simp add: New_S_def NewElevatorLogic_def fillFloorConfigs_returns initialElevator_S_def
        storedConfig_S_def initialLogic_def logicConfigOf_def filledConfigs_def Let_def
      split: option.splits)

lemma New_S_Inr:
  assumes "New_S c = Some (Inr e)" "int64 (MinFloor c)"
  shows "e = initialElevator_S c \<and> MinFloor c \<le> MaxFloor c \<and> MaxFloor c < MaxInt64"
proof -
  from assms(1) have le: "MinFloor c \<le> MaxFloor c"
    by (auto simp: New_S_def Let_def split: if_splits option.splits)
  from assms(1) obtain m where
    m: "fillFloorConfigs (MinFloor c) (MaxFloor c)
          (case FloorConfigs c of None \<Rightarrow> Map.empty | Some m \<Rightarrow> m) = Some m"
    by (auto simp: New_S_def NewElevatorLogic_def Let_def split: option.splits)
  from fillFloorConfigs_Some[OF m] assms(2) le have lt: "MaxFloor c < MaxInt64" by auto
  from New_S_returns[OF le lt assms(2)] assms(1) lt le show ?thesis by simp
qed

lemma New_S_Inr_fields:
  assumes "New_S c = Some (Inr s)"
  shows "Calls (Logic s) = {}"
  using assms by (auto simp: New_S_def NewElevatorLogic_def Let_def split: if_splits option.splits)

lemma filled_accessible:
  assumes "MinFloor c \<le> f" "f \<le> MaxFloor c"
  shows "IsAccessible (fcIndex (filledConfigs c) f) \<longleftrightarrow> \<not> markedInaccessible c f"
  using assms
  by (auto simp: fcIndex_def fcLookup_def filledConfigs_def filled_def markedInaccessible_def
        defaultFloorConfig_def split: option.splits)

subsection \<open>Effects of the monolithic engine's operations on the fields\<close>

lemma publishEvent_fields [simp]:
  "Config (publishEvent e ev) = Config e"
  "Mode (publishEvent e ev) = Mode e"
  "floor' (publishEvent e ev) = floor' e"
  "direction (publishEvent e ev) = direction e"
  "doors (publishEvent e ev) = doors e"
  "weight (publishEvent e ev) = weight e"
  "openWaitTime (publishEvent e ev) = openWaitTime e"
  "callFloors (publishEvent e ev) = callFloors e"
  "doorTimer (publishEvent e ev) = doorTimer e"
  "isOpenButtonPressed (publishEvent e ev) = isOpenButtonPressed e"
  by (simp_all add: publishEvent_def)

lemma setDoor_fields [simp]:
  "Config (setDoor e s st) = Config e"
  "Mode (setDoor e s st) = Mode e"
  "floor' (setDoor e s st) = floor' e"
  "direction (setDoor e s st) = direction e"
  "doors (setDoor e s st) = (doors e)(s := st)"
  "weight (setDoor e s st) = weight e"
  "openWaitTime (setDoor e s st) = openWaitTime e"
  "callFloors (setDoor e s st) = callFloors e"
  "doorTimer (setDoor e s st) = doorTimer e"
  "isOpenButtonPressed (setDoor e s st) = isOpenButtonPressed e"
  by (auto simp: setDoor_def)

lemma setDirection_fields [simp]:
  "Config (setDirection e d) = Config e"
  "Mode (setDirection e d) = Mode e"
  "floor' (setDirection e d) = floor' e"
  "direction (setDirection e d) = d"
  "doors (setDirection e d) = doors e"
  "weight (setDirection e d) = weight e"
  "openWaitTime (setDirection e d) = openWaitTime e"
  "callFloors (setDirection e d) = callFloors e"
  "doorTimer (setDirection e d) = doorTimer e"
  "isOpenButtonPressed (setDirection e d) = isOpenButtonPressed e"
  by (auto simp: setDirection_def)

lemma setFloor_fields [simp]:
  "Config (setFloor e f) = Config e"
  "Mode (setFloor e f) = Mode e"
  "floor' (setFloor e f) = f"
  "direction (setFloor e f) = direction e"
  "doors (setFloor e f) = doors e"
  "weight (setFloor e f) = weight e"
  "openWaitTime (setFloor e f) = openWaitTime e"
  "callFloors (setFloor e f) = callFloors e"
  "doorTimer (setFloor e f) = doorTimer e"
  "isOpenButtonPressed (setFloor e f) = isOpenButtonPressed e"
  by (auto simp: setFloor_def)

lemma handleArrival_fields [simp]:
  "Config (handleArrival e f) = Config e"
  "Mode (handleArrival e f) = Mode e"
  "floor' (handleArrival e f) = floor' e"
  "direction (handleArrival e f) = direction e"
  "weight (handleArrival e f) = weight e"
  "callFloors (handleArrival e f) = callFloors e - {f}"
  "isOpenButtonPressed (handleArrival e f) = isOpenButtonPressed e"
  "openWaitTime (handleArrival e f) = DoorOpenTime (Config e)"
  "doorTimer (handleArrival e f) = Some (DoorSpeed (Config e))"
  by (simp_all add: handleArrival_def Let_def split: prod.splits)

lemma handleDoorTimeout_fields [simp]:
  "Config (handleDoorTimeout e) = Config e"
  "Mode (handleDoorTimeout e) = Mode e"
  "floor' (handleDoorTimeout e) = floor' e"
  "direction (handleDoorTimeout e) = direction e"
  "weight (handleDoorTimeout e) = weight e"
  "callFloors (handleDoorTimeout e) = callFloors e"
  "isOpenButtonPressed (handleDoorTimeout e) = isOpenButtonPressed e"
  "openWaitTime (handleDoorTimeout e) = openWaitTime e"
  by (simp_all add: handleDoorTimeout_def Let_def split: DoorState.splits)

lemma handleDoorTimeout_closed: "allDoorsClose (doors e) \<Longrightarrow> handleDoorTimeout e = e"
  by (simp add: handleDoorTimeout_def allDoorsClose_def activeDoorState_def)

lemma PressOpenButton_fields [simp]:
  "Config (PressOpenButton e) = Config e"
  "Mode (PressOpenButton e) = Mode e"
  "floor' (PressOpenButton e) = floor' e"
  "direction (PressOpenButton e) = direction e"
  "weight (PressOpenButton e) = weight e"
  "callFloors (PressOpenButton e) = callFloors e"
  "isOpenButtonPressed (PressOpenButton e) = True"
  by (simp_all add: PressOpenButton_def Let_def split: DoorState.splits option.splits)

lemma PressOpenButton_moving:
  "allDoorsClose (doors e) \<Longrightarrow> direction e \<noteq> DirNone \<Longrightarrow> doors (PressOpenButton e) = doors e"
  by (simp add: PressOpenButton_def allDoorsClose_def activeDoorState_def)

lemma Reset_fields [simp]:
  "direction (Reset e) = DirNone"
  "doors (Reset e) = (\<lambda>_. DoorClose)"
  "callFloors (Reset e) = {}"
  "floor' (Reset e) = floor' e"
  "Config (Reset e) = Config e"
proof -
  have "(doors e)(Front := DoorClose, Rear := DoorClose) = (\<lambda>_. DoorClose)"
  proof
    fix d show "((doors e)(Front := DoorClose, Rear := DoorClose)) d = DoorClose"
      by (cases d) simp_all
  qed
  then show "doors (Reset e) = (\<lambda>_. DoorClose)" by (simp add: Reset_def Let_def)
qed (simp_all add: Reset_def Let_def)

lemma step_doors_open: "\<not> allDoorsClose (doors (elev r)) \<Longrightarrow> step ks r = r"
  by (simp add: step_def Let_def)

subsection \<open>Effects of the split engine's operations on the fields\<close>

lemma publishEvent_S_fields [simp]:
  "Config_S (publishEvent_S e ev) = Config_S e"
  "Logic (publishEvent_S e ev) = Logic e"
  "Mode_S (publishEvent_S e ev) = Mode_S e"
  "openWaitTime_S (publishEvent_S e ev) = openWaitTime_S e"
  "doorTimer_S (publishEvent_S e ev) = doorTimer_S e"
  "isOpenButtonPressed_S (publishEvent_S e ev) = isOpenButtonPressed_S e"
  by (simp_all add: publishEvent_S_def)

lemma setDoor_S_fields [simp]:
  "Config_S (setDoor_S e s st) = Config_S e"
  "Logic (setDoor_S e s st) = (Logic e)\<lparr>Doors := (Doors (Logic e))(s := st)\<rparr>"
  "Mode_S (setDoor_S e s st) = Mode_S e"
  "openWaitTime_S (setDoor_S e s st) = openWaitTime_S e"
  "doorTimer_S (setDoor_S e s st) = doorTimer_S e"
  "isOpenButtonPressed_S (setDoor_S e s st) = isOpenButtonPressed_S e"
  by (auto simp: setDoor_S_def SetDoor_L_def)

lemma setDirection_S_fields [simp]:
  "Config_S (setDirection_S e d) = Config_S e"
  "Logic (setDirection_S e d) = (Logic e)\<lparr>Direction := d\<rparr>"
  "Mode_S (setDirection_S e d) = Mode_S e"
  "openWaitTime_S (setDirection_S e d) = openWaitTime_S e"
  "doorTimer_S (setDirection_S e d) = doorTimer_S e"
  "isOpenButtonPressed_S (setDirection_S e d) = isOpenButtonPressed_S e"
  by (auto simp: setDirection_S_def SetDirection_L_def)

lemma setFloor_S_fields [simp]:
  "Config_S (setFloor_S e f) = Config_S e"
  "Logic (setFloor_S e f) = (Logic e)\<lparr>Floor := f\<rparr>"
  "Mode_S (setFloor_S e f) = Mode_S e"
  "openWaitTime_S (setFloor_S e f) = openWaitTime_S e"
  "doorTimer_S (setFloor_S e f) = doorTimer_S e"
  "isOpenButtonPressed_S (setFloor_S e f) = isOpenButtonPressed_S e"
  by (auto simp: setFloor_S_def SetFloor_L_def)

lemma handleArrival_S_fields [simp]:
  "Config_S (handleArrival_S e f) = Config_S e"
  "Mode_S (handleArrival_S e f) = Mode_S e"
  "Config_L (Logic (handleArrival_S e f)) = Config_L (Logic e)"
  "Floor (Logic (handleArrival_S e f)) = Floor (Logic e)"
  "Direction (Logic (handleArrival_S e f)) = Direction (Logic e)"
  "Weight (Logic (handleArrival_S e f)) = Weight (Logic e)"
  "Calls (Logic (handleArrival_S e f)) = Calls (Logic e) - {f}"
  "isOpenButtonPressed_S (handleArrival_S e f) = isOpenButtonPressed_S e"
  "openWaitTime_S (handleArrival_S e f) = DoorOpenTime (Config_S e)"
  "doorTimer_S (handleArrival_S e f) = Some (DoorSpeed (Config_S e))"
  by (simp_all add: handleArrival_S_def Let_def RemoveCall_L_def split: option.splits)

lemma handleDoorTimeout_S_fields [simp]:
  "Config_S (handleDoorTimeout_S e) = Config_S e"
  "Mode_S (handleDoorTimeout_S e) = Mode_S e"
  "Config_L (Logic (handleDoorTimeout_S e)) = Config_L (Logic e)"
  "Floor (Logic (handleDoorTimeout_S e)) = Floor (Logic e)"
  "Direction (Logic (handleDoorTimeout_S e)) = Direction (Logic e)"
  "Weight (Logic (handleDoorTimeout_S e)) = Weight (Logic e)"
  "Calls (Logic (handleDoorTimeout_S e)) = Calls (Logic e)"
  "isOpenButtonPressed_S (handleDoorTimeout_S e) = isOpenButtonPressed_S e"
  "openWaitTime_S (handleDoorTimeout_S e) = openWaitTime_S e"
  by (simp_all add: handleDoorTimeout_S_def Let_def split: DoorState.splits)

lemma handleDoorTimeout_S_closed:
  "allDoorsClose (Doors (Logic e)) \<Longrightarrow> handleDoorTimeout_S e = e"
  by (simp add: handleDoorTimeout_S_def allDoorsClose_def activeDoorState_def)

lemma PressOpenButton_S_fields [simp]:
  "Config_S (PressOpenButton_S e) = Config_S e"
  "Mode_S (PressOpenButton_S e) = Mode_S e"
  "Config_L (Logic (PressOpenButton_S e)) = Config_L (Logic e)"
  "Floor (Logic (PressOpenButton_S e)) = Floor (Logic e)"
  "Direction (Logic (PressOpenButton_S e)) = Direction (Logic e)"
  "Weight (Logic (PressOpenButton_S e)) = Weight (Logic e)"
  "Calls (Logic (PressOpenButton_S e)) = Calls (Logic e)"
  by (simp_all add: PressOpenButton_S_def Let_def)

lemma PressOpenButton_S_closed:
  "allDoorsClose (Doors (Logic e)) \<Longrightarrow> Doors (Logic (PressOpenButton_S e)) = Doors (Logic e)"
  by (simp add: PressOpenButton_S_def allDoorsClose_def)

lemma DecideNextStep_doors_open [simp]:
  "\<not> allDoorsClose (Doors l) \<Longrightarrow> DecideNextStep ks l = ActionNone"
  by (simp add: DecideNextStep_def AreDoorsClosed_def)

lemma DecideNextStep_Move_closed:
  "DecideNextStep ks l = ActionMove t d \<Longrightarrow> allDoorsClose (Doors l) \<and> d \<noteq> DirNone"
  by (auto simp: DecideNextStep_def AreDoorsClosed_def split: if_splits prod.splits)

lemma Reset_S_Some:
  "Reset_S e = Some e' \<Longrightarrow>
     allDoorsClose (Doors (Logic e')) \<and> Direction (Logic e') = DirNone \<and> Calls (Logic e') = {}"
  by (auto simp: Reset_S_def NewElevatorLogic_def Let_def allDoorsClose_def split: option.splits)

lemma Reset_S_returns:
  assumes "Config_L (Logic e) = logicConfigOf c" "MaxFloor c < MaxInt64" "int64 (MinFloor c)"
  shows "\<exists>e'. Reset_S e = Some e' \<and> Logic e' = initialLogic c \<and> Config_S e' = Config_S e"
  using assms
  by (simp add: Reset_S_def NewElevatorLogic_returns logicConfigOf_def initialLogic_def
        filledConfigs_def filled_idem Let_def)

lemma step_S_doors_open: "\<not> allDoorsClose (Doors (Logic (elev_S r))) \<Longrightarrow> step_S ks r = r"
  by (simp add: step_S_def Let_def)

lemma step_S_config [simp]: "Config_L (Logic (elev_S (step_S ks r))) = Config_L (Logic (elev_S r))"
  by (simp add: step_S_def Let_def split: LogicAction.splits)

lemma onTravelTimer_S_config [simp]:
  "Config_L (Logic (elev_S (onTravelTimer_S ks r))) = Config_L (Logic (elev_S r))"
  by (simp add: onTravelTimer_S_def handleMoveComplete_def Let_def split: prod.splits LogicAction.splits)

lemma onDoorTimer_S_config [simp]:
  "Config_L (Logic (elev_S (onDoorTimer_S r))) = Config_L (Logic (elev_S r))"
  by (simp add: onDoorTimer_S_def)

lemma command_S_config:
  assumes "Config_L (Logic e) = logicConfigOf c" "MaxFloor c < MaxInt64" "int64 (MinFloor c)"
  shows "\<exists>e'. command_S e cmd = Some e' \<and> Config_L (Logic e') = logicConfigOf c"
proof (cases cmd)
  case CmdReset
  with Reset_S_returns[OF assms] show ?thesis by (auto simp: initialLogic_def)
qed (use assms in \<open>auto simp: AddCall_S_def AddCall_L_def RemoveCall_S_def RemoveCall_L_def
      ClearCalls_S_def AddWeight_S_def SetDoor_S_def SetDoor_L_def SetMode_S_def
      ReleaseOpenButton_S_def PressCloseButton_S_def Let_def\<close>)

lemma fire_S_config:
  assumes "Config_L (Logic (elev_S r)) = logicConfigOf c" "MaxFloor c < MaxInt64" "int64 (MinFloor c)"
  shows "\<exists>r'. fire_S r i = Some r' \<and> Config_L (Logic (elev_S r')) = logicConfigOf c"
proof (cases i)
  case (Cmd cmd)
  from command_S_config[OF assms, of cmd] Cmd show ?thesis by auto
qed (use assms in auto)

lemma run_S_config:
  assumes "Config_L (Logic (elev_S r)) = logicConfigOf c" "MaxFloor c < MaxInt64" "int64 (MinFloor c)"
  shows "\<exists>r'. run_S r is = Some r' \<and> Config_L (Logic (elev_S r')) = logicConfigOf c"
  using assms(1)
proof (induction "is" arbitrary: r)
  case Nil
  then show ?case by simp
next
  case (Cons i "is")
  from fire_S_config[OF Cons.prems assms(2,3), of i] obtain r1 where
    r1: "fire_S r i = Some r1" "Config_L (Logic (elev_S r1)) = logicConfigOf c" by blast
  from Cons.IH[OF r1(2)] r1(1) show ?case by simp
qed

subsection \<open>The schedulers\<close>

lemma phase1_eq:
  assumes "floorsSmall (floor' e) (set ks)"
  shows "phase1 ks e = rangeScan (strictlyAhead (direction e) (floor' e)) (\<lambda>f. \<bar>f - floor' e\<bar>) ks scanInit"
proof (cases "direction e")
  case DirUp
  have "rangeScan (\<lambda>f. f > floor' e) (\<lambda>f. wrap64 (f - floor' e)) ks scanInit
      = rangeScan (strictlyAhead DirUp (floor' e)) (\<lambda>f. \<bar>f - floor' e\<bar>) ks scanInit"
    using assms by (intro rangeScan_cong) (auto simp: strictlyAhead_def floorsSmall_def wrap64_small_diff)
  with DirUp show ?thesis by (simp add: phase1_def)
next
  case DirDown
  have "rangeScan (\<lambda>f. f < floor' e) (\<lambda>f. wrap64 (floor' e - f)) ks scanInit
      = rangeScan (strictlyAhead DirDown (floor' e)) (\<lambda>f. \<bar>f - floor' e\<bar>) ks scanInit"
    using assms by (intro rangeScan_cong) (auto simp: strictlyAhead_def floorsSmall_def wrap64_small_diff)
  with DirDown show ?thesis by (simp add: phase1_def)
next
  case DirNone
  have "rangeScan (strictlyAhead DirNone (floor' e)) (\<lambda>f. \<bar>f - floor' e\<bar>) ks scanInit = scanInit"
    unfolding scanInit_def by (intro rangeScan_none) (simp add: strictlyAhead_def)
  with DirNone show ?thesis by (simp add: phase1_def)
qed

lemma phase1_L_eq:
  assumes "floorsSmall (Floor l) (set ks)"
  shows "phase1_L ks l = rangeScan (aheadOrHere (Direction l) (Floor l)) (\<lambda>f. \<bar>f - Floor l\<bar>) ks scanInit"
proof (cases "Direction l")
  case DirUp
  have "rangeScan (\<lambda>f. f \<ge> Floor l) (\<lambda>f. wrap64 (f - Floor l)) ks scanInit
      = rangeScan (aheadOrHere DirUp (Floor l)) (\<lambda>f. \<bar>f - Floor l\<bar>) ks scanInit"
    using assms by (intro rangeScan_cong) (auto simp: aheadOrHere_def floorsSmall_def wrap64_small_diff)
  with DirUp show ?thesis by (simp add: phase1_L_def)
next
  case DirDown
  have "rangeScan (\<lambda>f. f \<le> Floor l) (\<lambda>f. wrap64 (Floor l - f)) ks scanInit
      = rangeScan (aheadOrHere DirDown (Floor l)) (\<lambda>f. \<bar>f - Floor l\<bar>) ks scanInit"
    using assms by (intro rangeScan_cong) (auto simp: aheadOrHere_def floorsSmall_def wrap64_small_diff)
  with DirDown show ?thesis by (simp add: phase1_L_def)
next
  case DirNone
  have "rangeScan (aheadOrHere DirNone (Floor l)) (\<lambda>f. \<bar>f - Floor l\<bar>) ks scanInit = scanInit"
    unfolding scanInit_def by (intro rangeScan_none) (simp add: aheadOrHere_def)
  with DirNone show ?thesis by (simp add: phase1_L_def)
qed


lemma abs_scan_result:
  assumes "floorsSmall fl (set ks)"
  shows "case rangeScan ok (\<lambda>f. \<bar>f - fl\<bar>) ks scanInit of
           (md, t, fd) \<Rightarrow>
             (fd \<longleftrightarrow> (\<exists>k \<in> set ks. ok k)) \<and>
             (fd \<longrightarrow> t \<in> set ks \<and> ok t \<and> md = \<bar>t - fl\<bar> \<and> (\<forall>k \<in> set ks. ok k \<longrightarrow> \<bar>t - fl\<bar> \<le> \<bar>k - fl\<bar>))"
  using assms by (intro scan_result) (auto simp: floorsSmall_def small_dist)

lemma phase1_result:
  assumes "rangeOrder ks (callFloors e)" "floorsSmall (floor' e) (callFloors e)"
  shows "case phase1 ks e of
           (md, t, fd) \<Rightarrow>
             (fd \<longleftrightarrow> (\<exists>f \<in> callFloors e. strictlyAhead (direction e) (floor' e) f)) \<and>
             (fd \<longrightarrow> t \<in> callFloors e \<and> strictlyAhead (direction e) (floor' e) t \<and> t \<noteq> floor' e \<and>
                   (\<forall>f \<in> callFloors e. strictlyAhead (direction e) (floor' e) f
                        \<longrightarrow> \<bar>t - floor' e\<bar> \<le> \<bar>f - floor' e\<bar>) \<and>
                   selectNextTarget ks e = (t, True))"
proof -
  from assms have s: "set ks = callFloors e" "floorsSmall (floor' e) (set ks)"
    by (simp_all add: rangeOrder_def)
  obtain md t fd where r: "phase1 ks e = (md, t, fd)" by (cases "phase1 ks e")
  from abs_scan_result[OF s(2), of "strictlyAhead (direction e) (floor' e)"] r
  have "(fd \<longleftrightarrow> (\<exists>k \<in> set ks. strictlyAhead (direction e) (floor' e) k)) \<and>
        (fd \<longrightarrow> t \<in> set ks \<and> strictlyAhead (direction e) (floor' e) t \<and>
           (\<forall>k \<in> set ks. strictlyAhead (direction e) (floor' e) k \<longrightarrow> \<bar>t - floor' e\<bar> \<le> \<bar>k - floor' e\<bar>))"
    by (simp add: phase1_eq[OF s(2)])
  moreover have "strictlyAhead (direction e) (floor' e) t \<Longrightarrow> t \<noteq> floor' e"
    by (auto simp: strictlyAhead_def split: Direction.splits)
  moreover have "fd \<Longrightarrow> t \<in> set ks \<Longrightarrow> selectNextTarget ks e = (t, True)"
    using r s(1) by (auto simp: selectNextTarget_def)
  ultimately show ?thesis using r s(1) by auto
qed

lemma phase1_L_result:
  assumes "rangeOrder ks (Calls l)" "floorsSmall (Floor l) (Calls l)"
  shows "case phase1_L ks l of
           (md, t, fd) \<Rightarrow>
             (fd \<longleftrightarrow> (\<exists>f \<in> Calls l. aheadOrHere (Direction l) (Floor l) f)) \<and>
             (fd \<longrightarrow> t \<in> Calls l \<and> aheadOrHere (Direction l) (Floor l) t \<and>
                   (\<forall>f \<in> Calls l. aheadOrHere (Direction l) (Floor l) f
                        \<longrightarrow> \<bar>t - Floor l\<bar> \<le> \<bar>f - Floor l\<bar>) \<and>
                   selectNextTarget_L ks l = (t, True))"
proof -
  from assms have s: "set ks = Calls l" "floorsSmall (Floor l) (set ks)"
    by (simp_all add: rangeOrder_def)
  obtain md t fd where r: "phase1_L ks l = (md, t, fd)" by (cases "phase1_L ks l")
  from abs_scan_result[OF s(2), of "aheadOrHere (Direction l) (Floor l)"] r
  have "(fd \<longleftrightarrow> (\<exists>k \<in> set ks. aheadOrHere (Direction l) (Floor l) k)) \<and>
        (fd \<longrightarrow> t \<in> set ks \<and> aheadOrHere (Direction l) (Floor l) t \<and>
           (\<forall>k \<in> set ks. aheadOrHere (Direction l) (Floor l) k \<longrightarrow> \<bar>t - Floor l\<bar> \<le> \<bar>k - Floor l\<bar>))"
    by (simp add: phase1_L_eq[OF s(2)])
  moreover have "fd \<Longrightarrow> t \<in> set ks \<Longrightarrow> selectNextTarget_L ks l = (t, True)"
    using r s(1) by (auto simp: selectNextTarget_L_def)
  ultimately show ?thesis using r s(1) by auto
qed

text \<open>A call at the current floor wins Phase 1 of the split scheduler.\<close>

lemma phase1_L_here:
  assumes "rangeOrder ks (Calls l)" "floorsSmall (Floor l) (Calls l)"
    "Floor l \<in> Calls l" "Direction l \<noteq> DirNone"
  shows "selectNextTarget_L ks l = (Floor l, True)"
proof -
  obtain md t fd where r: "phase1_L ks l = (md, t, fd)" by (cases "phase1_L ks l")
  have here: "aheadOrHere (Direction l) (Floor l) (Floor l)"
    using assms(4) by (simp add: aheadOrHere_def split: Direction.splits)
  from phase1_L_result[OF assms(1,2)] r here assms(3)
  have "fd" "\<bar>t - Floor l\<bar> \<le> \<bar>Floor l - Floor l\<bar>" "selectNextTarget_L ks l = (t, True)"
    by auto
  then show ?thesis by simp
qed








lemma selectNextTarget_found: "selectNextTarget ks e = (t, True) \<Longrightarrow> t \<in> set ks"
  by (auto simp: selectNextTarget_def phase1_def phase2_def scanInit_def
           split: if_splits prod.splits Direction.splits dest: rangeScan_found)

lemma handleMove_continue:
  assumes "handleMove ks e = ((True, d), e')" "floorsSmall (floor' e) (set ks)"
  shows "\<exists>t. selectNextTarget ks e' = (t, True) \<and> t \<noteq> floor' e' \<and>
             d = (if \<bar>t - floor' e'\<bar> = 1 then TravelTimeEdge (Config e) else TravelTime (Config e))"
proof -
  define e1 where "e1 = (case direction e of
                 DirUp \<Rightarrow> setFloor e (wrap64 (floor' e + 1))
               | DirDown \<Rightarrow> setFloor e (wrap64 (floor' e - 1))
               | DirNone \<Rightarrow> e)"
  from assms(1) obtain t where t: "selectNextTarget ks e1 = (t, True)" "e' = e1"
    "d = getNextMoveDuration e1 t"
    "(direction e1 = DirUp \<and> t > floor' e1) \<or> (direction e1 = DirDown \<and> t < floor' e1)"
    unfolding handleMove_def e1_def[symmetric] Let_def
    by (auto split: if_splits prod.splits)
  from selectNextTarget_found[OF t(1)] assms(2) have st: "small t" "small (floor' e)"
    by (auto simp: floorsSmall_def)
  have c: "Config e1 = Config e" "direction e1 = direction e"
    by (simp_all add: e1_def split: Direction.splits)
  have "wrap64 (t - floor' e1) = t - floor' e1"
    using t(4) c(2) st small_step[of "floor' e"] small_hop_dist[of "floor' e" t]
    by (auto simp: e1_def)
  with t c show ?thesis
    by (auto simp: getNextMoveDuration_def absFloat64_def Let_def)
qed

subsection \<open>Motion and doors\<close>

lemma motionSafe_start [simp]: "motionSafe (startLoop e)"
  by (simp add: motionSafe_def startLoop_def)

lemma motionSafe_S_start [simp]: "motionSafe_S (startLoop_S e)"
  by (simp add: motionSafe_S_def startLoop_S_def)

lemma command_motion:
  assumes "\<not> isSetDoor (Cmd c)" "direction e \<noteq> DirNone \<longrightarrow> allDoorsClose (doors e)"
  shows "direction (command e c) \<noteq> DirNone \<longrightarrow> allDoorsClose (doors (command e c))"
  using assms
  by (cases c)
     (auto simp: AddCall_def RemoveCall_def ClearCalls_def ReleaseOpenButton_def
        PressCloseButton_def SetMode_def AddWeight_def Reset_def Let_def
        PressOpenButton_moving allDoorsClose_def)

lemma step_motionSafe: "motionSafe r \<Longrightarrow> motionSafe (step ks r)"
  by (auto simp: motionSafe_def step_def Let_def split: prod.splits option.splits if_splits)

lemma onTravelTimer_motionSafe:
  "motionSafe r \<Longrightarrow> travelTimer r \<noteq> None \<Longrightarrow> motionSafe (onTravelTimer ks r)"
  by (auto simp: motionSafe_def onTravelTimer_def handleMove_def Let_def
           split: prod.splits Direction.splits if_splits)

lemma onDoorTimer_motionSafe: "motionSafe r \<Longrightarrow> motionSafe (onDoorTimer r)"
proof -
  assume a: "motionSafe r"
  let ?e = "(elev r)\<lparr>doorTimer := None\<rparr>"
  show ?thesis
  proof (cases "isMoving r \<and> direction (elev r) \<noteq> DirNone")
    case True
    with a have "allDoorsClose (doors ?e)" by (simp add: motionSafe_def)
    then have "handleDoorTimeout ?e = ?e" by (rule handleDoorTimeout_closed)
    with a show ?thesis by (simp add: motionSafe_def onDoorTimer_def)
  next
    case False
    with a show ?thesis by (auto simp: motionSafe_def onDoorTimer_def)
  qed
qed

lemma fire_motionSafe:
  assumes "motionSafe r" "feasible r i" "\<not> isSetDoor i"
  shows "motionSafe (fire r i)"
proof (cases i)
  case (Tick ks) with assms show ?thesis by (simp add: step_motionSafe)
next
  case (TravelFire ks) with assms show ?thesis by (simp add: onTravelTimer_motionSafe)
next
  case DoorFire with assms show ?thesis by (simp add: onDoorTimer_motionSafe)
next
  case (Cmd c)
  show ?thesis
  proof (cases "isMoving r")
    case True
    with assms(1) have "direction (elev r) \<noteq> DirNone \<longrightarrow> allDoorsClose (doors (elev r))"
      by (simp add: motionSafe_def)
    with assms(3) Cmd have "direction (command (elev r) c) \<noteq> DirNone
        \<longrightarrow> allDoorsClose (doors (command (elev r) c))"
      by (intro command_motion) simp_all
    with assms(1) Cmd show ?thesis by (simp add: motionSafe_def)
  next
    case False
    with assms(1) Cmd show ?thesis by (simp add: motionSafe_def)
  qed
next
  case Receive with assms show ?thesis by (simp add: motionSafe_def)
qed

lemma run_motionSafe:
  "motionSafe r \<Longrightarrow> feasibleRun r is \<Longrightarrow> \<forall>i \<in> set is. \<not> isSetDoor i \<Longrightarrow> motionSafe (run r is)"
  by (induction "is" arbitrary: r) (auto simp: fire_motionSafe)

lemma command_S_motion:
  assumes "\<not> isSetDoor (Cmd c)" "command_S e c = Some e'"
    "Direction (Logic e) \<noteq> DirNone \<longrightarrow> allDoorsClose (Doors (Logic e))"
  shows "Direction (Logic e') \<noteq> DirNone \<longrightarrow> allDoorsClose (Doors (Logic e'))"
  using assms
  by (cases c)
     (auto simp: AddCall_S_def AddCall_L_def RemoveCall_S_def RemoveCall_L_def ClearCalls_S_def
        ReleaseOpenButton_S_def PressCloseButton_S_def SetMode_S_def AddWeight_S_def Let_def
        PressOpenButton_S_closed dest: Reset_S_Some split: if_splits)

lemma step_S_motionSafe: "motionSafe_S r \<Longrightarrow> motionSafe_S (step_S ks r)"
  by (auto simp: motionSafe_S_def step_S_def Let_def
           dest: DecideNextStep_Move_closed split: LogicAction.splits if_splits)

lemma onTravelTimer_S_motionSafe:
  "motionSafe_S r \<Longrightarrow> travelTimer_S r \<noteq> None \<Longrightarrow> motionSafe_S (onTravelTimer_S ks r)"
  by (auto simp: motionSafe_S_def onTravelTimer_S_def handleMoveComplete_def Let_def
           dest!: DecideNextStep_Move_closed split: prod.splits LogicAction.splits if_splits)

lemma onDoorTimer_S_motionSafe: "motionSafe_S r \<Longrightarrow> motionSafe_S (onDoorTimer_S r)"
proof -
  assume a: "motionSafe_S r"
  let ?e = "(elev_S r)\<lparr>doorTimer_S := None\<rparr>"
  show ?thesis
  proof (cases "isMoving_S r \<and> Direction (Logic (elev_S r)) \<noteq> DirNone")
    case True
    with a have "allDoorsClose (Doors (Logic ?e))" by (simp add: motionSafe_S_def)
    then have "handleDoorTimeout_S ?e = ?e" by (rule handleDoorTimeout_S_closed)
    with a show ?thesis by (simp add: motionSafe_S_def onDoorTimer_S_def)
  next
    case False
    with a show ?thesis by (auto simp: motionSafe_S_def onDoorTimer_S_def)
  qed
qed

lemma fire_S_motionSafe:
  assumes "motionSafe_S r" "feasible_S r i" "\<not> isSetDoor i" "fire_S r i = Some r'"
  shows "motionSafe_S r'"
proof (cases i)
  case (Tick ks) with assms show ?thesis by (auto simp: step_S_motionSafe)
next
  case (TravelFire ks) with assms show ?thesis by (auto simp: onTravelTimer_S_motionSafe)
next
  case DoorFire with assms show ?thesis by (auto simp: onDoorTimer_S_motionSafe)
next
  case (Cmd c)
  with assms(4) obtain e' where e': "command_S (elev_S r) c = Some e'" "r' = r\<lparr>elev_S := e'\<rparr>"
    by (auto split: option.splits)
  show ?thesis
  proof (cases "isMoving_S r")
    case True
    with assms(1) have "Direction (Logic (elev_S r)) \<noteq> DirNone
        \<longrightarrow> allDoorsClose (Doors (Logic (elev_S r)))"
      by (simp add: motionSafe_S_def)
    with assms(3) Cmd e'(1) have "Direction (Logic e') \<noteq> DirNone \<longrightarrow> allDoorsClose (Doors (Logic e'))"
      by (intro command_S_motion[of c "elev_S r" e']) simp_all
    with assms(1) e'(2) show ?thesis by (simp add: motionSafe_S_def)
  next
    case False
    with assms(1) e'(2) show ?thesis by (simp add: motionSafe_S_def)
  qed
next
  case Receive with assms show ?thesis by (auto simp: motionSafe_S_def)
qed

lemma run_S_motionSafe:
  "motionSafe_S r \<Longrightarrow> feasibleRun_S r is \<Longrightarrow> \<forall>i \<in> set is. \<not> isSetDoor i
     \<Longrightarrow> run_S r is = Some r' \<Longrightarrow> motionSafe_S r'"
proof (induction "is" arbitrary: r)
  case Nil
  then show ?case by simp
next
  case (Cons i "is")
  from Cons.prems(4) obtain r1 where r1: "fire_S r i = Some r1" "run_S r1 is = Some r'"
    by (auto split: option.splits)
  with Cons.prems have "motionSafe_S r1" by (auto intro: fire_S_motionSafe)
  with Cons r1 show ?case by auto
qed

subsection \<open>The call set\<close>

lemma command_callsOk: "callsOk e \<Longrightarrow> callsOk (command e c) \<and> Config (command e c) = Config e"
  by (cases c)
     (auto simp: callsOk_def AddCall_def RemoveCall_def ClearCalls_def ReleaseOpenButton_def
        PressCloseButton_def SetMode_def SetDoor_def AddWeight_def Let_def)

lemma step_callsOk: "callsOk (elev r) \<Longrightarrow>
    callsOk (elev (step ks r)) \<and> Config (elev (step ks r)) = Config (elev r)"
  by (auto simp: callsOk_def step_def Let_def split: prod.splits option.splits)

lemma onTravelTimer_callsOk: "callsOk (elev r) \<Longrightarrow>
    callsOk (elev (onTravelTimer ks r)) \<and> Config (elev (onTravelTimer ks r)) = Config (elev r)"
  by (auto simp: callsOk_def onTravelTimer_def handleMove_def Let_def
           split: prod.splits Direction.splits if_splits)

lemma onDoorTimer_callsOk: "callsOk (elev r) \<Longrightarrow>
    callsOk (elev (onDoorTimer r)) \<and> Config (elev (onDoorTimer r)) = Config (elev r)"
  by (auto simp: callsOk_def onDoorTimer_def)

lemma callsOk_eventCh [simp]: "callsOk (e\<lparr>eventCh := q\<rparr>) = callsOk e"
  by (simp add: callsOk_def)

lemma fire_callsOk: "callsOk (elev r) \<Longrightarrow>
    callsOk (elev (fire r i)) \<and> Config (elev (fire r i)) = Config (elev r)"
  by (cases i)
     (simp_all add: command_callsOk step_callsOk onTravelTimer_callsOk onDoorTimer_callsOk)

lemma run_callsOk: "callsOk (elev r) \<Longrightarrow>
    callsOk (elev (run r is)) \<and> Config (elev (run r is)) = Config (elev r)"
proof (induction "is" arbitrary: r)
  case Nil
  then show ?case by simp
next
  case (Cons i "is")
  from fire_callsOk[OF Cons.prems, of i] Cons.IH[of "fire r i"] show ?case by simp
qed

lemma Reset_S_callsOk: "Reset_S e = Some e' \<Longrightarrow> callsOk_L (Logic e')"
  by (auto simp: Reset_S_def NewElevatorLogic_def callsOk_L_def Let_def split: option.splits)

lemma command_S_callsOk:
  "callsOk_L (Logic e) \<Longrightarrow> command_S e c = Some e' \<Longrightarrow> callsOk_L (Logic e')"
  by (cases c)
     (auto simp: callsOk_L_def AddCall_S_def AddCall_L_def RemoveCall_S_def RemoveCall_L_def
        ClearCalls_S_def ReleaseOpenButton_S_def PressCloseButton_S_def SetMode_S_def SetDoor_S_def
        SetDoor_L_def AddWeight_S_def Let_def
      dest: Reset_S_callsOk split: if_splits)

lemma step_S_callsOk: "callsOk_L (Logic (elev_S r)) \<Longrightarrow> callsOk_L (Logic (elev_S (step_S ks r)))"
  by (auto simp: callsOk_L_def step_S_def Let_def split: LogicAction.splits)

lemma onTravelTimer_S_callsOk:
  "callsOk_L (Logic (elev_S r)) \<Longrightarrow> callsOk_L (Logic (elev_S (onTravelTimer_S ks r)))"
  by (auto simp: callsOk_L_def onTravelTimer_S_def handleMoveComplete_def Let_def
           split: prod.splits LogicAction.splits Direction.splits if_splits)

lemma onDoorTimer_S_callsOk:
  "callsOk_L (Logic (elev_S r)) \<Longrightarrow> callsOk_L (Logic (elev_S (onDoorTimer_S r)))"
  by (auto simp: callsOk_L_def onDoorTimer_S_def)

lemma fire_S_callsOk:
  "callsOk_L (Logic (elev_S r)) \<Longrightarrow> fire_S r i = Some r' \<Longrightarrow> callsOk_L (Logic (elev_S r'))"
proof (cases i)
  case (Cmd c)
  assume a: "callsOk_L (Logic (elev_S r))" "fire_S r i = Some r'"
  with Cmd obtain e' where "command_S (elev_S r) c = Some e'" "r' = r\<lparr>elev_S := e'\<rparr>"
    by (auto split: option.splits)
  with command_S_callsOk[OF a(1)] show ?thesis by simp
qed (auto simp: step_S_callsOk onTravelTimer_S_callsOk onDoorTimer_S_callsOk)

lemma run_S_callsOk:
  "callsOk_L (Logic (elev_S r)) \<Longrightarrow> run_S r is = Some r' \<Longrightarrow> callsOk_L (Logic (elev_S r'))"
proof (induction "is" arbitrary: r)
  case Nil
  then show ?case by simp
next
  case (Cons i "is")
  from Cons.prems(2) obtain r1 where r1: "fire_S r i = Some r1" "run_S r1 is = Some r'"
    by (auto split: option.splits)
  from fire_S_callsOk[OF Cons.prems(1) r1(1)] Cons.IH r1(2) show ?case by simp
qed

lemma run_S_reached:
  assumes "New_S c = Some (Inr s0)" "int64 (MinFloor c)"
  shows "\<exists>r. run_S (startLoop_S s0) is = Some r \<and> Config_L (Logic (elev_S r)) = logicConfigOf c \<and>
             callsOk_L (Logic (elev_S r))"
proof -
  from New_S_Inr[OF assms] have s0: "s0 = initialElevator_S c" and lt: "MaxFloor c < MaxInt64"
    by simp_all
  have cfg: "Config_L (Logic (elev_S (startLoop_S s0))) = logicConfigOf c"
    by (simp add: s0 startLoop_S_def)
  from run_S_config[OF cfg lt assms(2), of "is"] obtain r where
    r: "run_S (startLoop_S s0) is = Some r" "Config_L (Logic (elev_S r)) = logicConfigOf c"
    by blast
  have "callsOk_L (Logic (elev_S (startLoop_S s0)))"
    by (simp add: callsOk_L_def startLoop_S_def s0)
  from run_S_callsOk[OF this r(1)] r show ?thesis by simp
qed

lemma AddCall_reached:
  assumes "Config e = storedConfig c" "callsOk e"
  shows "(fst (AddCall e f b) \<noteq> None \<longleftrightarrow>
            f < MinFloor c \<or> f > MaxFloor c \<or> markedInaccessible c f) \<and>
         (fst (AddCall e f b) \<noteq> None \<longrightarrow> snd (AddCall e f b) = e) \<and>
         (fst (AddCall e f b) = None \<longrightarrow>
            snd (AddCall e f b) = e\<lparr>callFloors := insert f (callFloors e)\<rparr>) \<and>
         (f \<in> callFloors e \<longrightarrow> fst (AddCall e f b) = None \<and> snd (AddCall e f b) = e)"
proof (cases "f < MinFloor c \<or> f > MaxFloor c")
  case True
  with assms show ?thesis by (auto simp: AddCall_def callsOk_def)
next
  case False
  then have acc: "IsAccessible (fcIndex (filledConfigs c) f) \<longleftrightarrow> \<not> markedInaccessible c f"
    by (intro filled_accessible) simp_all
  have dup: "f \<in> callFloors e \<Longrightarrow> e\<lparr>callFloors := insert f (callFloors e)\<rparr> = e"
    by (simp add: insert_absorb)
  from assms False acc dup show ?thesis
    by (auto simp: AddCall_def callsOk_def Let_def)
qed

lemma AddCall_L_reached:
  assumes "Config_L l = logicConfigOf c" "callsOk_L l"
  shows "(fst (AddCall_L l f) \<noteq> None \<longleftrightarrow>
            f < MinFloor c \<or> f > MaxFloor c \<or> markedInaccessible c f) \<and>
         (fst (AddCall_L l f) \<noteq> None \<longrightarrow> snd (AddCall_L l f) = l) \<and>
         (fst (AddCall_L l f) = None \<longrightarrow>
            snd (AddCall_L l f) = l\<lparr>Calls := insert f (Calls l)\<rparr>) \<and>
         (f \<in> Calls l \<longrightarrow> fst (AddCall_L l f) = None \<and> snd (AddCall_L l f) = l)"
proof (cases "f < MinFloor c \<or> f > MaxFloor c")
  case True
  with assms show ?thesis by (auto simp: AddCall_L_def callsOk_L_def)
next
  case False
  then have acc: "IsAccessible (fcIndex (filledConfigs c) f) \<longleftrightarrow> \<not> markedInaccessible c f"
    by (intro filled_accessible) simp_all
  have dup: "f \<in> Calls l \<Longrightarrow> l\<lparr>Calls := insert f (Calls l)\<rparr> = l"
    by (simp add: insert_absorb)
  from assms False acc dup show ?thesis
    by (auto simp: AddCall_L_def callsOk_L_def Let_def)
qed

lemma AddCall_S_parts:
  "fst (AddCall_S e f b) = fst (AddCall_L (Logic e) f)"
  "snd (AddCall_S e f b) = e\<lparr>Logic := snd (AddCall_L (Logic e) f)\<rparr>"
  by (simp_all add: AddCall_S_def split: prod.splits)

lemma AddCall_S_reached:
  assumes "Config_L (Logic e) = logicConfigOf c" "callsOk_L (Logic e)"
  shows "(fst (AddCall_S e f b) \<noteq> None \<longleftrightarrow>
            f < MinFloor c \<or> f > MaxFloor c \<or> markedInaccessible c f) \<and>
         (fst (AddCall_S e f b) \<noteq> None \<longrightarrow> snd (AddCall_S e f b) = e) \<and>
         (fst (AddCall_S e f b) = None \<longrightarrow>
            snd (AddCall_S e f b) = e\<lparr>Logic := (Logic e)\<lparr>Calls := insert f (Calls (Logic e))\<rparr>\<rparr>) \<and>
         (f \<in> Calls (Logic e) \<longrightarrow> fst (AddCall_S e f b) = None \<and> snd (AddCall_S e f b) = e)"
proof -
  note L = AddCall_L_reached[OF assms, of f]
  from L have 1: "fst (AddCall_L (Logic e) f) \<noteq> None \<longleftrightarrow>
      f < MinFloor c \<or> f > MaxFloor c \<or> markedInaccessible c f" by (rule conjunct1)
  from L have 2: "fst (AddCall_L (Logic e) f) \<noteq> None \<longrightarrow> snd (AddCall_L (Logic e) f) = Logic e"
    by (elim conjE)
  from L have 3: "fst (AddCall_L (Logic e) f) = None \<longrightarrow>
      snd (AddCall_L (Logic e) f) = (Logic e)\<lparr>Calls := insert f (Calls (Logic e))\<rparr>"
    by (elim conjE)
  from L have 4: "f \<in> Calls (Logic e) \<longrightarrow>
      fst (AddCall_L (Logic e) f) = None \<and> snd (AddCall_L (Logic e) f) = Logic e"
    by (elim conjE)
  show ?thesis
  proof (intro conjI impI)
    show "fst (AddCall_S e f b) \<noteq> None \<longleftrightarrow>
            f < MinFloor c \<or> f > MaxFloor c \<or> markedInaccessible c f"
      using 1 by (simp only: AddCall_S_parts)
    show "snd (AddCall_S e f b) = e" if "fst (AddCall_S e f b) \<noteq> None"
      using 2 that by (simp add: AddCall_S_parts)
    show "snd (AddCall_S e f b) = e\<lparr>Logic := (Logic e)\<lparr>Calls := insert f (Calls (Logic e))\<rparr>\<rparr>"
      if "fst (AddCall_S e f b) = None"
      using 3 that by (simp add: AddCall_S_parts)
    show "fst (AddCall_S e f b) = None" if "f \<in> Calls (Logic e)"
      using 4 that by (simp add: AddCall_S_parts)
    show "snd (AddCall_S e f b) = e" if "f \<in> Calls (Logic e)"
      using 4 that by (simp add: AddCall_S_parts)
  qed
qed

subsection \<open>The overload guard\<close>





subsection \<open>Evaluating the examples\<close>

text \<open>
  The definitions a concrete run unfolds, and the construction of the example engines.
\<close>

lemmas engine_defs =
  initialElevator_def storedConfig_def filledConfigs_def filled_def demoConfig_def
  startLoop_def rangeOrder_def
  AddCall_def RemoveCall_def ClearCalls_def AddWeight_def SetDoor_def SetMode_def Reset_def
  PressOpenButton_def ReleaseOpenButton_def PressCloseButton_def
  step_def onTravelTimer_def onDoorTimer_def handleMove_def handleArrival_def
  handleDoorTimeout_def getNextMoveDuration_def getFloorConfig_def selectNextTarget_def
  phase1_def phase2_def scanInit_def MaxInt64_def wrap64_def absFloat64_def
  setDoor_def setDirection_def setFloor_def publishEvent_def
  fcIndex_def fcLookup_def zeroFloorConfig_def defaultFloorConfig_def
  allDoorsClose_def activeDoorState_def Let_def

lemmas split_defs =
  initialElevator_S_def storedConfig_S_def initialLogic_def logicConfigOf_def
  filledConfigs_def filled_def demoConfig_def startLoop_S_def rangeOrder_def
  AddCall_S_def AddCall_L_def RemoveCall_S_def RemoveCall_L_def ClearCalls_S_def AddWeight_S_def
  SetDoor_S_def SetDoor_L_def SetFloor_L_def SetDirection_L_def SetMode_S_def
  PressOpenButton_S_def ReleaseOpenButton_S_def PressCloseButton_S_def
  step_S_def onTravelTimer_S_def onDoorTimer_S_def handleMoveComplete_def handleArrival_S_def
  handleDoorTimeout_S_def DecideNextStep_def AreDoorsClosed_def selectNextTarget_L_def
  phase1_L_def phase2_L_def scanInit_def MaxInt64_def wrap64_def absFloat64_def
  setDoor_S_def setDirection_S_def setFloor_S_def publishEvent_S_def
  fcIndex_def fcLookup_def zeroFloorConfig_def defaultFloorConfig_def
  allDoorsClose_def activeDoorState_def Let_def

lemma demo_New: "New demoConfig = Some (Inr (initialElevator demoConfig))"
  by (rule New_returns) (simp_all add: demoConfig_def MaxInt64_def int64_def)

lemma demo_New_S: "New_S demoConfig = Some (Inr (initialElevator_S demoConfig))"
  by (rule New_S_returns) (simp_all add: demoConfig_def MaxInt64_def int64_def)

lemma access_New: "New accessConfig = Some (Inr (initialElevator accessConfig))"
  by (rule New_returns) (simp_all add: accessConfig_def demoConfig_def MaxInt64_def int64_def)

lemma access_New_S: "New_S accessConfig = Some (Inr (initialElevator_S accessConfig))"
  by (rule New_S_returns) (simp_all add: accessConfig_def demoConfig_def MaxInt64_def int64_def)

lemma Reset_S_demo [simp]:
  "Config_L (Logic e) = logicConfigOf demoConfig \<Longrightarrow>
   Reset_S e = Some (publishEvent_S (publishEvent_S (publishEvent_S (publishEvent_S
      (e\<lparr>Logic := initialLogic demoConfig\<rparr>) (FloorChange 1)) (DirectionChange DirNone))
      (DoorChange Front DoorClose)) (DoorChange Rear DoorClose))"
proof -
  assume a: "Config_L (Logic e) = logicConfigOf demoConfig"
  have "NewElevatorLogic (logicConfigOf demoConfig) = Some (initialLogic demoConfig)"
    by (subst NewElevatorLogic_returns)
       (simp_all add: logicConfigOf_def demoConfig_def MaxInt64_def int64_def initialLogic_def
          filledConfigs_def filled_idem)
  with a show ?thesis
    by (simp add: Reset_S_def Let_def demoConfig_def)
qed

section \<open>The claims\<close>

subsection \<open>C1\<close>

text \<open>
  C1 (amended). In every state of either engine reached from a constructed engine by
  ticks, timer fires and commands other than the manual door override
  \<^verbatim>\<open>SetDoor\<close>, a travel is in progress exactly while the travel timer is armed,
  and while a travel is in progress with direction Up or Down both doors are Close.
  A tick while any door is not Close changes nothing, so it starts no motion. The
  direction itself is the heading of the scan and stays Up or Down through the door
  cycle that follows an arrival.
\<close>

theorem C1_no_motion_with_open_doors:
  "(New c = Some (Inr e0) \<and> feasibleRun (startLoop e0) is \<and> (\<forall>i \<in> set is. \<not> isSetDoor i)
      \<longrightarrow> motionSafe (run (startLoop e0) is)) \<and>
   (New_S c = Some (Inr s0) \<and> int64 (MinFloor c) \<and> feasibleRun_S (startLoop_S s0) is \<and>
    (\<forall>i \<in> set is. \<not> isSetDoor i)
      \<longrightarrow> (\<exists>r. run_S (startLoop_S s0) is = Some r \<and> motionSafe_S r)) \<and>
   (\<not> allDoorsClose (doors (elev q)) \<longrightarrow> step ks q = q) \<and>
   (\<not> allDoorsClose (Doors (Logic (elev_S q'))) \<longrightarrow> step_S ks q' = q')"
proof (intro conjI impI)
  assume "New c = Some (Inr e0) \<and> feasibleRun (startLoop e0) is \<and> (\<forall>i \<in> set is. \<not> isSetDoor i)"
  then show "motionSafe (run (startLoop e0) is)"
    by (intro run_motionSafe) simp_all
next
  assume a: "New_S c = Some (Inr s0) \<and> int64 (MinFloor c) \<and> feasibleRun_S (startLoop_S s0) is \<and>
    (\<forall>i \<in> set is. \<not> isSetDoor i)"
  then obtain r where r: "run_S (startLoop_S s0) is = Some r"
    using run_S_reached[of c s0 "is"] by blast
  with a have "motionSafe_S r"
    by (intro run_S_motionSafe[of "startLoop_S s0" "is" r]) simp_all
  with r show "\<exists>r. run_S (startLoop_S s0) is = Some r \<and> motionSafe_S r" by simp
qed (simp_all add: step_doors_open step_S_doors_open)

text \<open>
  Witness for C1: after a call for floor 3 and a tick both engines travel Up with both
  doors Close; after an arrival at the current floor a tick with the doors Opening
  changes nothing.
\<close>

theorem C1_witness:
  "New demoConfig = Some (Inr (initialElevator demoConfig)) \<and>
   New_S demoConfig = Some (Inr (initialElevator_S demoConfig)) \<and>
   int64 (MinFloor demoConfig) \<and>
   feasibleRun (startLoop (initialElevator demoConfig)) startTrace \<and>
   feasibleRun_S (startLoop_S (initialElevator_S demoConfig)) startTrace \<and>
   isMoving (run (startLoop (initialElevator demoConfig)) startTrace) \<and>
   direction (elev (run (startLoop (initialElevator demoConfig)) startTrace)) = DirUp \<and>
   allDoorsClose (doors (elev (run (startLoop (initialElevator demoConfig)) startTrace))) \<and>
   motionOf_S (run_S (startLoop_S (initialElevator_S demoConfig)) startTrace)
     = Some (True, DirUp, True) \<and>
   \<not> allDoorsClose (doors (elev (run (startLoop (initialElevator demoConfig)) doorsOpenTrace))) \<and>
   step [3] (run (startLoop (initialElevator demoConfig)) doorsOpenTrace)
     = run (startLoop (initialElevator demoConfig)) doorsOpenTrace \<and>
   \<not> allDoorsClose (Doors (Logic (elev_S (startLoop_S
        (handleArrival_S (initialElevator_S demoConfig) 1))))) \<and>
   step_S [3] (startLoop_S (handleArrival_S (initialElevator_S demoConfig) 1))
     = startLoop_S (handleArrival_S (initialElevator_S demoConfig) 1)"
proof -
  let ?r = "run (startLoop (initialElevator demoConfig)) startTrace"
  let ?q = "run (startLoop (initialElevator demoConfig)) doorsOpenTrace"
  let ?q' = "startLoop_S (handleArrival_S (initialElevator_S demoConfig) 1)"
  have f: "feasibleRun (startLoop (initialElevator demoConfig)) startTrace"
    "\<forall>i \<in> set startTrace. \<not> isSetDoor i"
    by (simp_all add: startTrace_def engine_defs)
  have f': "feasibleRun_S (startLoop_S (initialElevator_S demoConfig)) startTrace"
    by (simp add: startTrace_def split_defs)
  have i: "int64 (MinFloor demoConfig)" by (simp add: demoConfig_def int64_def)
  have m: "isMoving ?r" "direction (elev ?r) = DirUp"
    by (simp_all add: startTrace_def engine_defs)
  have m': "motionOf_S (run_S (startLoop_S (initialElevator_S demoConfig)) startTrace)
     = Some (True, DirUp, True)"
    by (simp add: startTrace_def motionOf_S_def split_defs)
  have o: "\<not> allDoorsClose (doors (elev ?q))"
    by (simp add: doorsOpenTrace_def engine_defs)
  have o': "\<not> allDoorsClose (Doors (Logic (elev_S ?q')))"
    by (simp add: split_defs)
  note C1 = C1_no_motion_with_open_doors[of demoConfig "initialElevator demoConfig" startTrace
      "initialElevator_S demoConfig" ?q "[3]" ?q']
  from C1 demo_New f have "motionSafe ?r" by simp
  with m have c: "allDoorsClose (doors (elev ?r))" by (simp add: motionSafe_def)
  from C1 o o' have s: "step [3] ?q = ?q" "step_S [3] ?q' = ?q'" by simp_all
  from demo_New demo_New_S i f f' m c m' o o' s show ?thesis by simp
qed

text \<open>
  Counterexample to C1 as stated: a call for floor 2, a tick and the fire of the travel
  timer. Both engines arrive at floor 2 and start opening the front door while the
  direction is still Up.
\<close>

theorem C1_counterexample:
  "New demoConfig = Some (Inr (initialElevator demoConfig)) \<and>
   feasibleRun (startLoop (initialElevator demoConfig)) arrivalTrace \<and>
   direction (elev (run (startLoop (initialElevator demoConfig)) arrivalTrace)) = DirUp \<and>
   doors (elev (run (startLoop (initialElevator demoConfig)) arrivalTrace)) Front = DoorOpening \<and>
   New_S demoConfig = Some (Inr (initialElevator_S demoConfig)) \<and>
   feasibleRun_S (startLoop_S (initialElevator_S demoConfig)) arrivalTrace \<and>
   headingOf_S (run_S (startLoop_S (initialElevator_S demoConfig)) arrivalTrace)
     = Some (DirUp, DoorOpening)"
proof -
  have "feasibleRun (startLoop (initialElevator demoConfig)) arrivalTrace"
    "direction (elev (run (startLoop (initialElevator demoConfig)) arrivalTrace)) = DirUp"
    "doors (elev (run (startLoop (initialElevator demoConfig)) arrivalTrace)) Front = DoorOpening"
    by (simp_all add: arrivalTrace_def engine_defs)
  moreover have "feasibleRun_S (startLoop_S (initialElevator_S demoConfig)) arrivalTrace"
    "headingOf_S (run_S (startLoop_S (initialElevator_S demoConfig)) arrivalTrace)
       = Some (DirUp, DoorOpening)"
    by (simp_all add: arrivalTrace_def headingOf_S_def split_defs)
  ultimately show ?thesis using demo_New demo_New_S by simp
qed

subsection \<open>C2\<close>

text \<open>
  C2 (amended). With the floors of magnitude below \<open>2 ^ 52\<close> and \<open>ks\<close> an order of
  the call set: Phase 1 of the monolithic scheduler finds a target exactly when a call
  lies strictly ahead in the current heading (above the floor for Up, below it for
  Down); the target is then such a call, never the current floor, no other call
  strictly ahead is nearer, and it is what the scheduler returns. Phase 1 of the
  split scheduler (\<^verbatim>\<open>ElevatorLogic\<close>) is not strict: it finds a target exactly when a
  call lies ahead or at the current floor, and the target is a nearest such call, so
  a call at the current floor is selected.
\<close>

theorem C2_phase1:
  assumes "rangeOrder ks (callFloors e)" "floorsSmall (floor' e) (callFloors e)"
    and "rangeOrder ks' (Calls l)" "floorsSmall (Floor l) (Calls l)"
  shows "(case phase1 ks e of
            (md, t, fd) \<Rightarrow>
              (fd \<longleftrightarrow> (\<exists>f \<in> callFloors e. strictlyAhead (direction e) (floor' e) f)) \<and>
              (fd \<longrightarrow> t \<in> callFloors e \<and> strictlyAhead (direction e) (floor' e) t \<and>
                    t \<noteq> floor' e \<and>
                    (\<forall>f \<in> callFloors e. strictlyAhead (direction e) (floor' e) f
                         \<longrightarrow> \<bar>t - floor' e\<bar> \<le> \<bar>f - floor' e\<bar>) \<and>
                    selectNextTarget ks e = (t, True))) \<and>
         (case phase1_L ks' l of
            (md, t, fd) \<Rightarrow>
              (fd \<longleftrightarrow> (\<exists>f \<in> Calls l. aheadOrHere (Direction l) (Floor l) f)) \<and>
              (fd \<longrightarrow> t \<in> Calls l \<and> aheadOrHere (Direction l) (Floor l) t \<and>
                    (\<forall>f \<in> Calls l. aheadOrHere (Direction l) (Floor l) f
                         \<longrightarrow> \<bar>t - Floor l\<bar> \<le> \<bar>f - Floor l\<bar>) \<and>
                    selectNextTarget_L ks' l = (t, True))) \<and>
         (Floor l \<in> Calls l \<and> Direction l \<noteq> DirNone
            \<longrightarrow> selectNextTarget_L ks' l = (Floor l, True))"
  using phase1_result[OF assms(1,2)] phase1_L_result[OF assms(3,4)] phase1_L_here[OF assms(3,4)]
  by simp

text \<open>
  Witness for C2: at floor 5 heading Up with calls {2, 7, 9} the monolithic Phase 1
  selects 7; with calls {5, 7} the monolithic scheduler returns 7 and the split one
  returns the current floor 5.
\<close>

theorem C2_witness:
  "rangeOrder [9, 2, 7] (callFloors (headingUpElevator {2, 7, 9})) \<and>
   floorsSmall (floor' (headingUpElevator {2, 7, 9})) (callFloors (headingUpElevator {2, 7, 9})) \<and>
   rangeOrder [5, 7] (Calls (headingUpLogic {5, 7})) \<and>
   floorsSmall (Floor (headingUpLogic {5, 7})) (Calls (headingUpLogic {5, 7})) \<and>
   phase1 [9, 2, 7] (headingUpElevator {2, 7, 9}) = (2, 7, True) \<and>
   selectNextTarget [9, 2, 7] (headingUpElevator {2, 7, 9}) = (7, True) \<and>
   selectNextTarget_L [5, 7] (headingUpLogic {5, 7}) = (5, True)"
proof -
  have a: "rangeOrder [9, 2, 7] (callFloors (headingUpElevator {2, 7, 9}))"
    "floorsSmall (floor' (headingUpElevator {2, 7, 9})) (callFloors (headingUpElevator {2, 7, 9}))"
    by (auto simp: headingUpElevator_def rangeOrder_def floorsSmall_def small_def)
  have b: "rangeOrder [5, 7] (Calls (headingUpLogic {5, 7}))"
    "floorsSmall (Floor (headingUpLogic {5, 7})) (Calls (headingUpLogic {5, 7}))"
    by (auto simp: headingUpLogic_def rangeOrder_def floorsSmall_def small_def)
  have p: "phase1 [9, 2, 7] (headingUpElevator {2, 7, 9}) = (2, 7, True)"
    by (simp add: headingUpElevator_def phase1_def scanInit_def MaxInt64_def wrap64_def)
  have h: "Floor (headingUpLogic {5, 7}) = 5" "Direction (headingUpLogic {5, 7}) = DirUp"
    "Calls (headingUpLogic {5, 7}) = {5, 7}"
    by (simp_all add: headingUpLogic_def)
  from C2_phase1[OF a b] p h
  have "selectNextTarget [9, 2, 7] (headingUpElevator {2, 7, 9}) = (7, True)"
    "selectNextTarget_L [5, 7] (headingUpLogic {5, 7}) = (5, True)"
    by simp_all
  with a b p show ?thesis by simp
qed

text \<open>
  Counterexample to C2 as stated: both engines from floor 4 with calls for 5 and 7
  arrive at floor 5 heading Up, cycle the door, and receive a new call for floor 5.
  With direction Up, doors Close and calls {5, 7}, Phase 1 of the split scheduler
  finds the call at the current floor (distance 0) and the scheduler returns floor 5;
  the monolithic scheduler returns floor 7.
\<close>

theorem C2_counterexample:
  "New_S reopenConfig = Some (Inr (initialElevator_S reopenConfig)) \<and>
   feasibleRun_S (startLoop_S (initialElevator_S reopenConfig)) reopenTrace \<and>
   schedulerView_S [5, 7] (run_S (startLoop_S (initialElevator_S reopenConfig)) reopenTrace)
     = Some (5, DirUp, {5, 7}, True, (0, 5, True), (5, True)) \<and>
   schedulerView_S [7, 5] (run_S (startLoop_S (initialElevator_S reopenConfig)) reopenTrace)
     = Some (5, DirUp, {5, 7}, True, (0, 5, True), (5, True)) \<and>
   New reopenConfig = Some (Inr (initialElevator reopenConfig)) \<and>
   feasibleRun (startLoop (initialElevator reopenConfig)) reopenTrace \<and>
   floor' (elev (run (startLoop (initialElevator reopenConfig)) reopenTrace)) = 5 \<and>
   direction (elev (run (startLoop (initialElevator reopenConfig)) reopenTrace)) = DirUp \<and>
   callFloors (elev (run (startLoop (initialElevator reopenConfig)) reopenTrace)) = {5, 7} \<and>
   selectNextTarget [5, 7] (elev (run (startLoop (initialElevator reopenConfig)) reopenTrace))
     = (7, True)"
proof -
  have "New_S reopenConfig = Some (Inr (initialElevator_S reopenConfig))"
    by (rule New_S_returns) (simp_all add: reopenConfig_def demoConfig_def MaxInt64_def int64_def)
  moreover have "New reopenConfig = Some (Inr (initialElevator reopenConfig))"
    by (rule New_returns) (simp_all add: reopenConfig_def demoConfig_def MaxInt64_def int64_def)
  moreover have
    "feasibleRun_S (startLoop_S (initialElevator_S reopenConfig)) reopenTrace"
    "schedulerView_S [5, 7] (run_S (startLoop_S (initialElevator_S reopenConfig)) reopenTrace)
       = Some (5, DirUp, {5, 7}, True, (0, 5, True), (5, True))"
    "schedulerView_S [7, 5] (run_S (startLoop_S (initialElevator_S reopenConfig)) reopenTrace)
       = Some (5, DirUp, {5, 7}, True, (0, 5, True), (5, True))"
    by (simp_all add: reopenTrace_def reopenConfig_def schedulerView_S_def split_defs insert_commute)
  moreover have
    "feasibleRun (startLoop (initialElevator reopenConfig)) reopenTrace"
    "floor' (elev (run (startLoop (initialElevator reopenConfig)) reopenTrace)) = 5"
    "direction (elev (run (startLoop (initialElevator reopenConfig)) reopenTrace)) = DirUp"
    "callFloors (elev (run (startLoop (initialElevator reopenConfig)) reopenTrace)) = {5, 7}"
    "selectNextTarget [5, 7] (elev (run (startLoop (initialElevator reopenConfig)) reopenTrace))
       = (7, True)"
    by (simp_all add: reopenTrace_def reopenConfig_def engine_defs insert_commute)
  ultimately show ?thesis by simp
qed

subsection \<open>C3\<close>

text \<open>
  C3 (amended). Monolithic engine: a tick that starts motion while the direction is
  None arms the travel timer with \<open>TravelTimeEdge\<close>; when a fire of the travel timer
  continues the motion, the timer is re-armed with \<open>TravelTimeEdge\<close> if the target
  chosen at the new floor is exactly one floor away and with \<open>TravelTime\<close> if it is
  further (floors of magnitude below \<open>2 ^ 52\<close>). Split engine: the travel timer is
  armed and re-armed with \<open>TravelTime\<close> in every case.
\<close>

theorem C3_travel_durations:
  "(\<not> isMoving r \<and> direction (elev r) = DirNone \<and> isMoving (step ks r)
      \<longrightarrow> travelTimer (step ks r) = Some (TravelTimeEdge (Config (elev r)))) \<and>
   (isMoving r \<and> isMoving (onTravelTimer ks r) \<and> floorsSmall (floor' (elev r)) (set ks)
      \<longrightarrow> (\<exists>t. selectNextTarget ks (elev (onTravelTimer ks r)) = (t, True) \<and>
               t \<noteq> floor' (elev (onTravelTimer ks r)) \<and>
               travelTimer (onTravelTimer ks r) =
                 Some (if \<bar>t - floor' (elev (onTravelTimer ks r))\<bar> = 1
                       then TravelTimeEdge (Config (elev r))
                       else TravelTime (Config (elev r))))) \<and>
   (\<not> isMoving_S q \<and> isMoving_S (step_S ks q)
      \<longrightarrow> travelTimer_S (step_S ks q) = Some (TravelTime (Config_S (elev_S q)))) \<and>
   (isMoving_S q \<and> isMoving_S (onTravelTimer_S ks q)
      \<longrightarrow> travelTimer_S (onTravelTimer_S ks q) = Some (TravelTime (Config_S (elev_S q))))"
proof (intro conjI impI)
  assume "\<not> isMoving r \<and> direction (elev r) = DirNone \<and> isMoving (step ks r)"
  then show "travelTimer (step ks r) = Some (TravelTimeEdge (Config (elev r)))"
    by (auto simp: step_def getNextMoveDuration_def Let_def split: if_splits prod.splits)
next
  assume a: "isMoving r \<and> isMoving (onTravelTimer ks r) \<and> floorsSmall (floor' (elev r)) (set ks)"
  obtain b d e' where h: "handleMove ks (elev r) = ((b, d), e')"
    by (cases "handleMove ks (elev r)") auto
  with a have b: "b" by (auto simp: onTravelTimer_def split: if_splits)
  with h a handleMove_continue[of ks "elev r" d e']
  show "\<exists>t. selectNextTarget ks (elev (onTravelTimer ks r)) = (t, True) \<and>
               t \<noteq> floor' (elev (onTravelTimer ks r)) \<and>
               travelTimer (onTravelTimer ks r) =
                 Some (if \<bar>t - floor' (elev (onTravelTimer ks r))\<bar> = 1
                       then TravelTimeEdge (Config (elev r))
                       else TravelTime (Config (elev r)))"
    by (simp add: onTravelTimer_def)
next
  assume "\<not> isMoving_S q \<and> isMoving_S (step_S ks q)"
  then show "travelTimer_S (step_S ks q) = Some (TravelTime (Config_S (elev_S q)))"
    by (auto simp: step_S_def Let_def split: if_splits LogicAction.splits)
next
  assume "isMoving_S q \<and> isMoving_S (onTravelTimer_S ks q)"
  then show "travelTimer_S (onTravelTimer_S ks q) = Some (TravelTime (Config_S (elev_S q)))"
    by (auto simp: onTravelTimer_S_def handleMoveComplete_def Let_def
             split: if_splits prod.splits LogicAction.splits)
qed

text \<open>
  Witness for C3: the monolithic engine called to floor 5 starts from rest with
  1.5 s and continues at floor 2 with 1 s (target three floors away); called to floor
  3 it continues at floor 2 with 1.5 s (target one floor away). The split engine
  starts and continues with 1 s.
\<close>

theorem C3_witness:
  "\<not> isMoving (called 5) \<and> direction (elev (called 5)) = DirNone \<and>
   isMoving (step [5] (called 5)) \<and>
   travelTimer (step [5] (called 5)) = Some 1500000000 \<and>
   isMoving (onTravelTimer [5] (step [5] (called 5))) \<and>
   floorsSmall (floor' (elev (step [5] (called 5)))) (set [5]) \<and>
   selectNextTarget [5] (elev (onTravelTimer [5] (step [5] (called 5)))) = (5, True) \<and>
   floor' (elev (onTravelTimer [5] (step [5] (called 5)))) = 2 \<and>
   travelTimer (onTravelTimer [5] (step [5] (called 5))) = Some 1000000000 \<and>
   isMoving (onTravelTimer [3] (step [3] (called 3))) \<and>
   travelTimer (onTravelTimer [3] (step [3] (called 3))) = Some 1500000000 \<and>
   \<not> isMoving_S (called_S 5) \<and> isMoving_S (step_S [5] (called_S 5)) \<and>
   travelTimer_S (step_S [5] (called_S 5)) = Some 1000000000 \<and>
   isMoving_S (onTravelTimer_S [5] (step_S [5] (called_S 5))) \<and>
   travelTimer_S (onTravelTimer_S [5] (step_S [5] (called_S 5))) = Some 1000000000"
proof -
  have c: "TravelTimeEdge (Config (elev (called 5))) = 1500000000"
    "TravelTime (Config (elev (step [5] (called 5)))) = 1000000000"
    by (simp_all add: called_def engine_defs)
  have c': "TravelTime (Config_S (elev_S (called_S 5))) = 1000000000"
    "TravelTime (Config_S (elev_S (step_S [5] (called_S 5)))) = 1000000000"
    by (simp_all add: called_S_def split_defs)
  have a: "\<not> isMoving (called 5)" "direction (elev (called 5)) = DirNone"
    "isMoving (step [5] (called 5))"
    "isMoving (onTravelTimer [5] (step [5] (called 5)))"
    "floorsSmall (floor' (elev (step [5] (called 5)))) (set [5])"
    "selectNextTarget [5] (elev (onTravelTimer [5] (step [5] (called 5)))) = (5, True)"
    "floor' (elev (onTravelTimer [5] (step [5] (called 5)))) = 2"
    "isMoving (onTravelTimer [3] (step [3] (called 3)))"
    "travelTimer (onTravelTimer [3] (step [3] (called 3))) = Some 1500000000"
    by (simp_all add: called_def engine_defs floorsSmall_def small_def)
  have b: "\<not> isMoving_S (called_S 5)" "isMoving_S (step_S [5] (called_S 5))"
    "isMoving_S (onTravelTimer_S [5] (step_S [5] (called_S 5)))"
    by (simp_all add: called_S_def split_defs)
  from C3_travel_durations[of "called 5" "[5]" "called_S 5"] a b c c'
  have 1: "travelTimer (step [5] (called 5)) = Some 1500000000"
    "travelTimer_S (step_S [5] (called_S 5)) = Some 1000000000"
    by simp_all
  from C3_travel_durations[of "step [5] (called 5)" "[5]" "step_S [5] (called_S 5)"] a b c c'
  have 2: "travelTimer (onTravelTimer [5] (step [5] (called 5))) = Some 1000000000"
    "travelTimer_S (onTravelTimer_S [5] (step_S [5] (called_S 5))) = Some 1000000000"
    by simp_all
  from a b 1 2 show ?thesis by simp
qed

text \<open>
  Counterexample to C3 as stated: the split engine, idle with direction None and
  called to floor 3, starts with \<open>TravelTime\<close> (1 s) where the claim says
  \<open>TravelTimeEdge\<close> (1.5 s), and at floor 2, one floor from its target, continues
  with \<open>TravelTime\<close> again.
\<close>

theorem C3_counterexample:
  "Direction (Logic (elev_S (called_S 3))) = DirNone \<and> \<not> isMoving_S (called_S 3) \<and>
   isMoving_S (step_S [3] (called_S 3)) \<and>
   TravelTime (Config_S (elev_S (called_S 3))) = 1000000000 \<and>
   TravelTimeEdge (Config_S (elev_S (called_S 3))) = 1500000000 \<and>
   travelTimer_S (step_S [3] (called_S 3)) = Some 1000000000 \<and>
   isMoving_S (onTravelTimer_S [3] (step_S [3] (called_S 3))) \<and>
   Floor (Logic (elev_S (onTravelTimer_S [3] (step_S [3] (called_S 3))))) = 2 \<and>
   selectNextTarget_L [3] (Logic (elev_S (onTravelTimer_S [3] (step_S [3] (called_S 3))))) = (3, True) \<and>
   travelTimer_S (onTravelTimer_S [3] (step_S [3] (called_S 3))) = Some 1000000000"
  by (simp add: called_S_def split_defs)

subsection \<open>C4\<close>

text \<open>
  C4 (amended). In the monolithic engine \<^verbatim>\<open>Reset\<close>, applied in any state, yields
  direction None, both doors Close and no calls, and leaves the floor unchanged. In
  the split engine, in every state reached from a constructed engine, \<^verbatim>\<open>Reset\<close>
  returns and yields direction None, both doors Close and no calls, and sets the floor
  to the configured initial floor.
\<close>

theorem C4_reset_postcondition:
  "direction (Reset e) = DirNone \<and> allDoorsClose (doors (Reset e)) \<and>
   callFloors (Reset e) = {} \<and> floor' (Reset e) = floor' e \<and>
   (New_S c = Some (Inr s0) \<and> int64 (MinFloor c) \<longrightarrow>
      (\<exists>r s. run_S (startLoop_S s0) is = Some r \<and> Reset_S (elev_S r) = Some s \<and>
             Direction (Logic s) = DirNone \<and> allDoorsClose (Doors (Logic s)) \<and>
             Calls (Logic s) = {} \<and> Floor (Logic s) = InitialFloor c))"
proof (intro conjI impI)
  assume a: "New_S c = Some (Inr s0) \<and> int64 (MinFloor c)"
  with New_S_Inr[of c s0] have s0: "s0 = initialElevator_S c" and lt: "MaxFloor c < MaxInt64"
    and i: "int64 (MinFloor c)" by simp_all
  have "Config_L (Logic (elev_S (startLoop_S s0))) = logicConfigOf c"
    by (simp add: s0 startLoop_S_def)
  from run_S_config[OF this lt i, of "is"] obtain r where
    r: "run_S (startLoop_S s0) is = Some r" "Config_L (Logic (elev_S r)) = logicConfigOf c"
    by blast
  from Reset_S_returns[OF r(2) lt i] obtain s where
    s: "Reset_S (elev_S r) = Some s" "Logic s = initialLogic c" by blast
  with r(1) show "\<exists>r s. run_S (startLoop_S s0) is = Some r \<and> Reset_S (elev_S r) = Some s \<and>
             Direction (Logic s) = DirNone \<and> allDoorsClose (Doors (Logic s)) \<and>
             Calls (Logic s) = {} \<and> Floor (Logic s) = InitialFloor c"
    by (simp add: allDoorsClose_def)
qed (simp_all add: allDoorsClose_def)

text \<open>
  Witness for C4: both engines after a call for floor 3, a tick and one hop (floor 2,
  direction Up), then reset.
\<close>

theorem C4_witness:
  "floor' (elev (run (startLoop (initialElevator demoConfig)) moveTrace)) = 2 \<and>
   direction (elev (run (startLoop (initialElevator demoConfig)) moveTrace)) = DirUp \<and>
   direction (Reset (elev (run (startLoop (initialElevator demoConfig)) moveTrace))) = DirNone \<and>
   floor' (Reset (elev (run (startLoop (initialElevator demoConfig)) moveTrace))) = 2 \<and>
   New_S demoConfig = Some (Inr (initialElevator_S demoConfig)) \<and> int64 (MinFloor demoConfig) \<and>
   (\<exists>r s. run_S (startLoop_S (initialElevator_S demoConfig)) moveTrace = Some r \<and>
          Reset_S (elev_S r) = Some s \<and> Direction (Logic s) = DirNone \<and>
          allDoorsClose (Doors (Logic s)) \<and> Calls (Logic s) = {} \<and> Floor (Logic s) = 1)"
proof -
  let ?e = "elev (run (startLoop (initialElevator demoConfig)) moveTrace)"
  have a: "floor' ?e = 2" "direction ?e = DirUp"
    by (simp_all add: moveTrace_def engine_defs)
  have b: "int64 (MinFloor demoConfig)" "InitialFloor demoConfig = 1"
    by (simp_all add: demoConfig_def int64_def)
  from C4_reset_postcondition[of ?e demoConfig "initialElevator_S demoConfig" moveTrace]
    a b demo_New_S
  show ?thesis by simp
qed

text \<open>
  Counterexample to C4 as stated: the split engine at floor 2 after one hop is back at
  the initial floor 1 after \<^verbatim>\<open>Reset\<close>.
\<close>

theorem C4_counterexample:
  "floorOf_S (run_S (startLoop_S (initialElevator_S demoConfig)) moveTrace) = Some 2 \<and>
   floorOf_S (run_S (startLoop_S (initialElevator_S demoConfig)) (moveTrace @ [Cmd CmdReset])) = Some 1"
  by (simp add: moveTrace_def floorOf_S_def split_defs)

subsection \<open>C5\<close>

text \<open>
  C5. Construction validates only the floor range. With the lowest floor an int and
  the highest floor below the largest int, either engine's \<^verbatim>\<open>New\<close> returns an error
  exactly when \<open>MinFloor > MaxFloor\<close>; otherwise it returns an engine with
  \<open>floor = InitialFloor\<close>, direction None, both doors Close, mode Auto and no calls,
  whatever \<open>InitialFloor\<close> is.
\<close>

theorem C5_New_validates_range_only:
  assumes "int64 (MinFloor c)" "MaxFloor c < MaxInt64"
  shows "((\<exists>err. New c = Some (Inl err)) \<longleftrightarrow> MinFloor c > MaxFloor c) \<and>
         ((\<exists>err. New_S c = Some (Inl err)) \<longleftrightarrow> MinFloor c > MaxFloor c) \<and>
         (MinFloor c \<le> MaxFloor c \<longrightarrow>
            (\<exists>e. New c = Some (Inr e) \<and> floor' e = InitialFloor c \<and> direction e = DirNone \<and>
                  allDoorsClose (doors e) \<and> Mode e = ModeAuto \<and> callFloors e = {}) \<and>
            (\<exists>s. New_S c = Some (Inr s) \<and> Floor (Logic s) = InitialFloor c \<and>
                  Direction (Logic s) = DirNone \<and> allDoorsClose (Doors (Logic s)) \<and>
                  Mode_S s = ModeAuto \<and> Calls (Logic s) = {}))"
proof (intro conjI impI)
  assume le: "MinFloor c \<le> MaxFloor c"
  from New_returns[OF le assms(2,1)]
  show "\<exists>e. New c = Some (Inr e) \<and> floor' e = InitialFloor c \<and> direction e = DirNone \<and>
             allDoorsClose (doors e) \<and> Mode e = ModeAuto \<and> callFloors e = {}"
    by (simp add: allDoorsClose_def)
  from New_S_returns[OF le assms(2,1)]
  show "\<exists>s. New_S c = Some (Inr s) \<and> Floor (Logic s) = InitialFloor c \<and>
             Direction (Logic s) = DirNone \<and> allDoorsClose (Doors (Logic s)) \<and>
             Mode_S s = ModeAuto \<and> Calls (Logic s) = {}"
    by (simp add: allDoorsClose_def)
qed (rule New_Inl New_S_Inl)+

text \<open>
  The failing input of C5: floors 1 to 10 with initial floor 42. Both engines are
  constructed, at floor 42.
\<close>

theorem C5_initial_floor_unchecked:
  "MinFloor badInitialConfig = 1 \<and> MaxFloor badInitialConfig = 10 \<and>
   InitialFloor badInitialConfig = 42 \<and>
   (\<exists>e. New badInitialConfig = Some (Inr e) \<and> floor' e = 42) \<and>
   (\<exists>s. New_S badInitialConfig = Some (Inr s) \<and> Floor (Logic s) = 42)"
proof -
  have f: "MinFloor badInitialConfig = 1" "MaxFloor badInitialConfig = 10"
    "InitialFloor badInitialConfig = 42"
    by (simp_all add: badInitialConfig_def demoConfig_def)
  have a: "int64 (MinFloor badInitialConfig)" "MaxFloor badInitialConfig < MaxInt64"
    "MinFloor badInitialConfig \<le> MaxFloor badInitialConfig"
    by (simp_all add: f int64_def MaxInt64_def)
  from C5_New_validates_range_only[OF a(1,2)] a(3)
  obtain e s where "New badInitialConfig = Some (Inr e)" "floor' e = InitialFloor badInitialConfig"
    "New_S badInitialConfig = Some (Inr s)" "Floor (Logic s) = InitialFloor badInitialConfig"
    by blast
  with f show ?thesis by auto
qed

subsection \<open>C6\<close>




subsection \<open>C7\<close>

text \<open>
  C7. In every state of either engine reached from a constructed engine, for every
  floor argument: \<^verbatim>\<open>AddCall\<close> returns an error exactly when the floor is below
  \<open>MinFloor\<close>, above \<open>MaxFloor\<close>, or marked inaccessible by its entry in the floor
  configuration; on error the engine is unchanged; on success the engine is unchanged
  but for the floor being in the call set; and a floor already in the call set is
  accepted and leaves the engine unchanged.
\<close>

theorem C7_AddCall_errors_and_atomicity:
  assumes "New c = Some (Inr e0)" "New_S c = Some (Inr s0)" "int64 (MinFloor c)"
    and "e = elev (run (startLoop e0) is)"
  shows "(fst (AddCall e f b) \<noteq> None \<longleftrightarrow>
            f < MinFloor c \<or> f > MaxFloor c \<or> markedInaccessible c f) \<and>
         (fst (AddCall e f b) \<noteq> None \<longrightarrow> snd (AddCall e f b) = e) \<and>
         (fst (AddCall e f b) = None \<longrightarrow>
            snd (AddCall e f b) = e\<lparr>callFloors := insert f (callFloors e)\<rparr>) \<and>
         (f \<in> callFloors e \<longrightarrow> fst (AddCall e f b) = None \<and> snd (AddCall e f b) = e) \<and>
         (\<exists>r. run_S (startLoop_S s0) is = Some r \<and>
            (fst (AddCall_S (elev_S r) f b) \<noteq> None \<longleftrightarrow>
               f < MinFloor c \<or> f > MaxFloor c \<or> markedInaccessible c f) \<and>
            (fst (AddCall_S (elev_S r) f b) \<noteq> None \<longrightarrow> snd (AddCall_S (elev_S r) f b) = elev_S r) \<and>
            (fst (AddCall_S (elev_S r) f b) = None \<longrightarrow>
               snd (AddCall_S (elev_S r) f b)
                 = (elev_S r)\<lparr>Logic := (Logic (elev_S r))\<lparr>Calls := insert f (Calls (Logic (elev_S r)))\<rparr>\<rparr>) \<and>
            (f \<in> Calls (Logic (elev_S r)) \<longrightarrow>
               fst (AddCall_S (elev_S r) f b) = None \<and> snd (AddCall_S (elev_S r) f b) = elev_S r))"
proof -
  from New_Inr[OF assms(1,3)] have e0: "e0 = initialElevator c" by simp
  then have "callsOk (elev (startLoop e0))" by (simp add: callsOk_def startLoop_def)
  from run_callsOk[OF this, of "is"] assms(4) e0
  have e: "Config e = storedConfig c" "callsOk e" by (simp_all add: startLoop_def)
  from run_S_reached[OF assms(2,3), of "is"] obtain r where
    r: "run_S (startLoop_S s0) is = Some r" "Config_L (Logic (elev_S r)) = logicConfigOf c"
       "callsOk_L (Logic (elev_S r))" by blast
  from AddCall_reached[OF e, of f b] AddCall_S_reached[OF r(2,3), of f b] r(1)
  show ?thesis by (intro conjI exI[of _ r]) (elim conjE, assumption)+
qed

text \<open>
  Witness for C7: floors 1 to 10 with floor 4 configured inaccessible, after the calls
  of \<open>callsTrace\<close> (call set {3, 7}): floor 4 and floor 11 are refused and floor 3 is
  accepted, each leaving the monolithic engine as it was.
\<close>

theorem C7_witness:
  "New accessConfig = Some (Inr (initialElevator accessConfig)) \<and>
   New_S accessConfig = Some (Inr (initialElevator_S accessConfig)) \<and>
   int64 (MinFloor accessConfig) \<and>
   markedInaccessible accessConfig 4 \<and>
   fst (AddCall (elev (run (startLoop (initialElevator accessConfig)) callsTrace)) 4 True) \<noteq> None \<and>
   snd (AddCall (elev (run (startLoop (initialElevator accessConfig)) callsTrace)) 4 True)
     = elev (run (startLoop (initialElevator accessConfig)) callsTrace) \<and>
   fst (AddCall (elev (run (startLoop (initialElevator accessConfig)) callsTrace)) 11 True) \<noteq> None \<and>
   3 \<in> callFloors (elev (run (startLoop (initialElevator accessConfig)) callsTrace)) \<and>
   fst (AddCall (elev (run (startLoop (initialElevator accessConfig)) callsTrace)) 3 True) = None \<and>
   snd (AddCall (elev (run (startLoop (initialElevator accessConfig)) callsTrace)) 3 True)
     = elev (run (startLoop (initialElevator accessConfig)) callsTrace)"
proof -
  let ?e = "elev (run (startLoop (initialElevator accessConfig)) callsTrace)"
  have i: "int64 (MinFloor accessConfig)" "MaxFloor accessConfig = 10"
    by (simp_all add: accessConfig_def demoConfig_def int64_def)
  have m: "markedInaccessible accessConfig 4"
    by (simp add: markedInaccessible_def accessConfig_def fcLookup_def)
  have c: "3 \<in> callFloors ?e"
    by (simp add: callsTrace_def accessConfig_def engine_defs)
  note C7 = C7_AddCall_errors_and_atomicity[OF access_New access_New_S i(1) refl, of callsTrace]
  from C7[of 4 True] m have a4: "fst (AddCall ?e 4 True) \<noteq> None" "snd (AddCall ?e 4 True) = ?e"
    by blast+
  from C7[of 11 True] i(2) have a11: "fst (AddCall ?e 11 True) \<noteq> None" by simp
  from C7[of 3 True] c have a3: "fst (AddCall ?e 3 True) = None" "snd (AddCall ?e 3 True) = ?e"
    by blast+
  from access_New access_New_S i(1) m a4 a11 c a3 show ?thesis by simp
qed

subsection \<open>C8\<close>




subsection \<open>C9\<close>

text \<open>
  C9. Every floor in the call set is within the floor range and accessible, in every
  state of either engine reached from a constructed engine by any inputs (ticks,
  timer fires, commands, in any order).
\<close>

theorem C9_calls_valid:
  "(New c = Some (Inr e0) \<longrightarrow>
      (\<forall>f \<in> callFloors (elev (run (startLoop e0) is)).
          MinFloor c \<le> f \<and> f \<le> MaxFloor c \<and>
          IsAccessible (fcIndex (FloorConfigs (Config (elev (run (startLoop e0) is)))) f))) \<and>
   (New_S c = Some (Inr s0) \<and> int64 (MinFloor c) \<longrightarrow>
      (\<exists>r. run_S (startLoop_S s0) is = Some r \<and>
           (\<forall>f \<in> Calls (Logic (elev_S r)).
               MinFloor c \<le> f \<and> f \<le> MaxFloor c \<and>
               IsAccessible (fcIndex (FloorConfigs_L (Config_L (Logic (elev_S r)))) f))))"
proof (intro conjI impI)
  assume n: "New c = Some (Inr e0)"
  then have "callsOk (elev (startLoop e0))"
    using New_Inr_fields(1)[of c e0] by (simp add: callsOk_def startLoop_def)
  from run_callsOk[OF this, of "is"] New_Inr_fields(2,3)[OF n]
  show "\<forall>f \<in> callFloors (elev (run (startLoop e0) is)).
          MinFloor c \<le> f \<and> f \<le> MaxFloor c \<and>
          IsAccessible (fcIndex (FloorConfigs (Config (elev (run (startLoop e0) is)))) f)"
    by (auto simp: callsOk_def startLoop_def)
next
  assume n: "New_S c = Some (Inr s0) \<and> int64 (MinFloor c)"
  then obtain r where r: "run_S (startLoop_S s0) is = Some r"
    "Config_L (Logic (elev_S r)) = logicConfigOf c" "callsOk_L (Logic (elev_S r))"
    using run_S_reached[of c s0 "is"] by blast
  then show "\<exists>r. run_S (startLoop_S s0) is = Some r \<and>
           (\<forall>f \<in> Calls (Logic (elev_S r)).
               MinFloor c \<le> f \<and> f \<le> MaxFloor c \<and>
               IsAccessible (fcIndex (FloorConfigs_L (Config_L (Logic (elev_S r)))) f))"
    by (auto simp: callsOk_L_def)
qed

text \<open>
  Witness for C9: with floor 4 configured inaccessible, calls for 3, 4, 42, 7 and 3
  again leave the call set {3, 7} in both engines.
\<close>

theorem C9_witness:
  "New accessConfig = Some (Inr (initialElevator accessConfig)) \<and>
   New_S accessConfig = Some (Inr (initialElevator_S accessConfig)) \<and>
   int64 (MinFloor accessConfig) \<and>
   callFloors (elev (run (startLoop (initialElevator accessConfig)) callsTrace)) = {3, 7} \<and>
   callsOf_S (run_S (startLoop_S (initialElevator_S accessConfig)) callsTrace) = Some {3, 7} \<and>
   MinFloor accessConfig \<le> 7 \<and> 7 \<le> MaxFloor accessConfig \<and>
   IsAccessible (fcIndex (FloorConfigs (Config
      (elev (run (startLoop (initialElevator accessConfig)) callsTrace)))) 7)"
proof -
  let ?r = "run (startLoop (initialElevator accessConfig)) callsTrace"
  have a: "callFloors (elev ?r) = {3, 7}"
    by (simp add: callsTrace_def accessConfig_def engine_defs insert_commute)
  have b: "callsOf_S (run_S (startLoop_S (initialElevator_S accessConfig)) callsTrace) = Some {3, 7}"
    by (simp add: callsTrace_def accessConfig_def callsOf_S_def split_defs insert_commute)
  have i: "int64 (MinFloor accessConfig)"
    by (simp add: accessConfig_def demoConfig_def int64_def)
  from C9_calls_valid[of accessConfig "initialElevator accessConfig" callsTrace
      "initialElevator_S accessConfig"] access_New a
  have "MinFloor accessConfig \<le> 7 \<and> 7 \<le> MaxFloor accessConfig \<and>
        IsAccessible (fcIndex (FloorConfigs (Config (elev ?r))) 7)"
    by simp
  with access_New access_New_S a b i show ?thesis by simp
qed

subsection \<open>C10\<close>

text \<open>
  C10. A fire of the door timer while both doors are Close is a no-op: the handler
  of either engine returns the engine as it was (floor, direction, doors, calls,
  weight, mode, timers, and the event channel with its drop counter).
\<close>

theorem C10_door_timeout_closed_noop:
  "(allDoorsClose (doors e) \<longrightarrow> handleDoorTimeout e = e) \<and>
   (allDoorsClose (Doors (Logic s)) \<longrightarrow> handleDoorTimeout_S s = s)"
  by (simp add: handleDoorTimeout_closed handleDoorTimeout_S_closed)

text \<open>
  Witness for C10: after an arrival at the current floor and a reset, the doors are
  Close while the door timer is still armed; its fire changes nothing.
\<close>

theorem C10_witness:
  "allDoorsClose (doors (elev (run (startLoop (initialElevator demoConfig)) staleTimerTrace))) \<and>
   doorTimer (elev (run (startLoop (initialElevator demoConfig)) staleTimerTrace)) = Some 500000000 \<and>
   handleDoorTimeout (elev (run (startLoop (initialElevator demoConfig)) staleTimerTrace))
     = elev (run (startLoop (initialElevator demoConfig)) staleTimerTrace) \<and>
   allDoorsClose (Doors (Logic (initialElevator_S demoConfig))) \<and>
   handleDoorTimeout_S (initialElevator_S demoConfig) = initialElevator_S demoConfig"
proof -
  let ?e = "elev (run (startLoop (initialElevator demoConfig)) staleTimerTrace)"
  have a: "allDoorsClose (doors ?e)" "doorTimer ?e = Some 500000000"
    by (simp_all add: staleTimerTrace_def engine_defs)
  have b: "allDoorsClose (Doors (Logic (initialElevator_S demoConfig)))"
    by (simp add: split_defs)
  from C10_door_timeout_closed_noop[of ?e "initialElevator_S demoConfig"] a b
  show ?thesis by simp
qed

end
